theory Spec2Isabelle
  imports Complex_Main "HOL-Library.AList"
begin

section \<open>Fuzzy livability assessment: a shallow embedding\<close>

text \<open>
  The embedding follows \<^verbatim>\<open>src/src/membership_functions.py\<close>,
  \<^verbatim>\<open>src/src/rule_base.py\<close> and \<^verbatim>\<open>src/src/fuzzy_system.py\<close>.
  Python floats are modelled as \<^typ>\<open>real\<close>: rounding, infinities and NaN are
  outside the model. A Python \<^verbatim>\<open>dict\<close> is an association list in insertion
  order, read with \<^const>\<open>map_of\<close> and written with \<^const>\<open>AList.update\<close>.
  An exception is the \<^const>\<open>Inl\<close> branch of a sum.
\<close>

datatype error = KeyError | TypeError | UnknownVariable | UnknownTerm

text \<open>
  \<^const>\<open>KeyError\<close> and \<^const>\<open>TypeError\<close> are the Python exceptions the
  modelled code can raise. \<^const>\<open>UnknownVariable\<close> and \<^const>\<open>UnknownTerm\<close> are
  the error names of the specification; no function of the source produces them.
\<close>

subsection \<open>Library functions used by the source\<close>

text \<open>
  Modelled from the spec: \<^verbatim>\<open>numpy.arange\<close> is not under src/. The universe of
  discourse is "an ordered, evenly spaced sequence of real numbers": the points
  \<open>start + i * step\<close> that lie below \<open>stop\<close>.
\<close>

definition arange :: "real \<Rightarrow> real \<Rightarrow> real \<Rightarrow> real list" where
  "arange start stop step =
     map (\<lambda>i. start + real i * step) [0..<nat \<lceil>(stop - start) / step\<rceil>]"

text \<open>
  Modelled from the spec: \<^verbatim>\<open>skfuzzy.trapmf\<close> and \<^verbatim>\<open>skfuzzy.trimf\<close> are not
  under src/. For breakpoints \<open>(x0,0) (x1,1) (x2,1) (x3,0)\<close> the degree is 1 over
  \<open>[x1,x2]\<close> (so that a flat shoulder \<open>x0 = x1\<close> or \<open>x2 = x3\<close> has degree 1 at the
  edge), 0 for \<open>v \<le> x0\<close> or \<open>v \<ge> x3\<close>, and ramps linearly in between; a triangle
  is the case \<open>x1 = x2\<close>. The function is sampled over the universe.
\<close>

definition trap_degree :: "real \<Rightarrow> real \<Rightarrow> real \<Rightarrow> real \<Rightarrow> real \<Rightarrow> real" where
  "trap_degree x0 x1 x2 x3 v =
     (if x1 \<le> v \<and> v \<le> x2 then 1
      else if v \<le> x0 \<or> x3 \<le> v then 0
      else if v < x1 then (v - x0) / (x1 - x0)
      else (x3 - v) / (x3 - x2))"

fun trapmf :: "real list \<Rightarrow> real \<times> real \<times> real \<times> real \<Rightarrow> real list" where
  "trapmf x (a, b, c, d) = map (trap_degree a b c d) x"

fun trimf :: "real list \<Rightarrow> real \<times> real \<times> real \<Rightarrow> real list" where
  "trimf x (a, b, c) = map (trap_degree a b b c) x"

text \<open>
  Modelled from the spec: \<^verbatim>\<open>skfuzzy.interp_membership\<close> is not under src/. The
  degree at a value is found "via linear interpolation on the piecewise-linear
  function; out-of-range values clamp to the nearest edge degree (do not
  extrapolate or error)". The argument is the list of sample points
  \<open>(x, degree)\<close> in ascending order of \<open>x\<close>. Every universe of the model is
  non-empty, so the equation for the empty list is never used by the source's
  calls; it returns 0.
\<close>

fun interp :: "(real \<times> real) list \<Rightarrow> real \<Rightarrow> real" where
  "interp [] v = 0"
| "interp [(x0, y0)] v = y0"
| "interp ((x0, y0) # (x1, y1) # ps) v =
     (if v \<le> x0 then y0
      else if v \<le> x1 then y0 + (v - x0) * (y1 - y0) / (x1 - x0)
      else interp ((x1, y1) # ps) v)"

definition interp_membership :: "real list \<Rightarrow> real list \<Rightarrow> real \<Rightarrow> real" where
  "interp_membership x xmf xx = interp (zip x xmf) xx"

text \<open>
  Modelled from the spec: \<^verbatim>\<open>skfuzzy.defuzz\<close> with mode \<^verbatim>\<open>centroid\<close> is not under
  src/. The centroid is
  \<open>score = \<Sigma>(u_i * envelope(u_i)) / \<Sigma>(envelope(u_i))\<close> over the sampled universe
  points.
\<close>

definition defuzz_centroid :: "real list \<Rightarrow> real list \<Rightarrow> real" where
  "defuzz_centroid x mfx = sum_list (map (\<lambda>(u, e). u * e) (zip x mfx)) / sum_list mfx"

subsection \<open>Membership model (\<^verbatim>\<open>FuzzyMembershipFunctions\<close>)\<close>

definition universes :: "(string \<times> real list) list" where
  "universes =
     [(''noise_lden'', arange 30 85 0.5),
      (''noise_lnight'', arange 25 75 0.5),
      (''daylight'', arange 0 1000 5),
      (''view_sky'', arange 0 4 0.05),
      (''view_greenery'', arange 0 2 0.02),
      (''location_poi'', arange 0 100 1),
      (''livability'', arange 0 101 1)]"

definition membership_functions :: "(string \<times> (string \<times> real list) list) list" where
  "membership_functions =
     [(''noise_lden'',
         [(''quiet'', trapmf (arange 30 85 0.5) (30, 30, 48, 55)),
          (''moderate'', trimf (arange 30 85 0.5) (50, 58, 68)),
          (''noisy'', trapmf (arange 30 85 0.5) (63, 70, 85, 85))]),
      (''noise_lnight'',
         [(''quiet'', trapmf (arange 25 75 0.5) (25, 25, 40, 47)),
          (''moderate'', trimf (arange 25 75 0.5) (42, 50, 58)),
          (''noisy'', trapmf (arange 25 75 0.5) (53, 60, 75, 75))]),
      (''daylight'',
         [(''low'', trapmf (arange 0 1000 5) (0, 0, 50, 120)),
          (''medium'', trimf (arange 0 1000 5) (80, 200, 350)),
          (''high'', trapmf (arange 0 1000 5) (280, 400, 1000, 1000))]),
      (''view_sky'',
         [(''poor'', trapmf (arange 0 4 0.05) (0, 0, 0.5, 1.2)),
          (''moderate'', trimf (arange 0 4 0.05) (0.8, 1.5, 2.3)),
          (''good'', trapmf (arange 0 4 0.05) (2.0, 2.8, 4, 4))]),
      (''view_greenery'',
         [(''poor'', trapmf (arange 0 2 0.02) (0, 0, 0.1, 0.4)),
          (''moderate'', trimf (arange 0 2 0.02) (0.2, 0.6, 1.0)),
          (''good'', trapmf (arange 0 2 0.02) (0.7, 1.2, 2, 2))]),
      (''location_poi'',
         [(''low'', trapmf (arange 0 100 1) (0, 0, 5, 15)),
          (''medium'', trimf (arange 0 100 1) (10, 25, 40)),
          (''high'', trapmf (arange 0 100 1) (35, 50, 100, 100))]),
      (''livability'',
         [(''poor'', trapmf (arange 0 101 1) (0, 0, 15, 35)),
          (''fair'', trimf (arange 0 101 1) (25, 40, 55)),
          (''good'', trimf (arange 0 101 1) (45, 60, 75)),
          (''excellent'', trapmf (arange 0 101 1) (65, 80, 100, 100))])]"

text \<open>
  \<^verbatim>\<open>get_universe\<close> returns \<^verbatim>\<open>self.universes.get(variable, None)\<close>: Python's
  \<^verbatim>\<open>None\<close> is \<^const>\<open>None\<close>, and no branch raises.
\<close>

definition get_universe :: "string \<Rightarrow> error + real list option" where
  "get_universe variable = Inr (map_of universes variable)"

definition get_membership_function :: "string \<Rightarrow> string \<Rightarrow> error + real list option" where
  "get_membership_function variable term =
     (case map_of membership_functions variable of
        Some mfs \<Rightarrow> Inr (map_of mfs term)
      | None \<Rightarrow> Inr None)"

text \<open>
  \<^verbatim>\<open>fuzzify_value\<close>: an unknown variable gives the empty dict. The subscript
  \<^verbatim>\<open>self.universes[variable]\<close> raises \<^verbatim>\<open>KeyError\<close> on a variable without a
  universe.
\<close>

fun memberships_of :: "real list \<Rightarrow> real \<Rightarrow> (string \<times> real list) list \<Rightarrow> (string \<times> real) list
    \<Rightarrow> (string \<times> real) list" where
  "memberships_of u v [] memberships = memberships"
| "memberships_of u v ((term, mf) # rest) memberships =
     memberships_of u v rest (AList.update term (interp_membership u mf v) memberships)"

definition fuzzify_value :: "string \<Rightarrow> real \<Rightarrow> error + (string \<times> real) list" where
  "fuzzify_value variable v =
     (case map_of membership_functions variable of
        None \<Rightarrow> Inr []
      | Some mfs \<Rightarrow>
          (if mfs = [] then Inr []
           else case map_of universes variable of
                  None \<Rightarrow> Inl KeyError
                | Some u \<Rightarrow> Inr (memberships_of u v mfs [])))"

subsection \<open>Rule base (\<^verbatim>\<open>FuzzyRuleBase\<close>)\<close>

record rule =
  rule_id :: int
  description :: string
  antecedents :: "(string \<times> string) list"
  consequent :: "(string \<times> string) list"
  weight :: real

definition mk_rule :: "int \<Rightarrow> string \<Rightarrow> (string \<times> string) list \<Rightarrow> string \<Rightarrow> real \<Rightarrow> rule" where
  "mk_rule i d a c w =
     \<lparr>rule_id = i, description = d, antecedents = a,
      consequent = [(''livability'', c)], weight = w\<rparr>"

definition get_rules :: "rule list" where
  "get_rules =
     [mk_rule 1 ''Quiet environment with high daylight and good views''
        [(''noise_lden'', ''quiet''), (''daylight'', ''high''), (''view_sky'', ''good'')]
        ''excellent'' 1.0,
      mk_rule 2 ''Quiet with good greenery view and high accessibility''
        [(''noise_lden'', ''quiet''), (''view_greenery'', ''good''), (''location_poi'', ''high'')]
        ''excellent'' 1.0,
      mk_rule 3 ''Moderate noise with high daylight and good views''
        [(''noise_lden'', ''moderate''), (''daylight'', ''high''), (''view_sky'', ''good'')]
        ''good'' 1.0,
      mk_rule 4 ''Quiet environment with medium daylight''
        [(''noise_lden'', ''quiet''), (''daylight'', ''medium''), (''view_sky'', ''moderate'')]
        ''good'' 1.0,
      mk_rule 5 ''Moderate noise but good views and accessibility''
        [(''noise_lden'', ''moderate''), (''view_sky'', ''good''), (''location_poi'', ''high'')]
        ''good'' 0.9,
      mk_rule 6 ''Moderate noise with medium daylight''
        [(''noise_lden'', ''moderate''), (''daylight'', ''medium''), (''view_sky'', ''moderate'')]
        ''fair'' 1.0,
      mk_rule 7 ''Quiet but low daylight and poor views''
        [(''noise_lden'', ''quiet''), (''daylight'', ''low''), (''view_sky'', ''poor'')]
        ''fair'' 1.0,
      mk_rule 8 ''Moderate noise with good accessibility''
        [(''noise_lden'', ''moderate''), (''location_poi'', ''high''), (''view_sky'', ''moderate'')]
        ''fair'' 0.8,
      mk_rule 9 ''Noisy environment regardless of other factors''
        [(''noise_lden'', ''noisy'')]
        ''poor'' 1.0,
      mk_rule 10 ''Low daylight with poor views''
        [(''daylight'', ''low''), (''view_sky'', ''poor''), (''view_greenery'', ''poor'')]
        ''poor'' 1.0,
      mk_rule 11 ''Moderate noise with low daylight and poor views''
        [(''noise_lden'', ''moderate''), (''daylight'', ''low''), (''view_sky'', ''poor'')]
        ''poor'' 0.9,
      mk_rule 12 ''Poor accessibility with low environmental quality''
        [(''location_poi'', ''low''), (''daylight'', ''low''), (''noise_lden'', ''moderate'')]
        ''poor'' 0.7,
      mk_rule 13 ''Excellent daylight compensates for moderate noise''
        [(''noise_lden'', ''moderate''), (''daylight'', ''high''), (''location_poi'', ''high'')]
        ''good'' 0.85,
      mk_rule 14 ''Good greenery view with quiet night environment''
        [(''noise_lnight'', ''quiet''), (''view_greenery'', ''good''), (''daylight'', ''medium'')]
        ''good'' 0.9,
      mk_rule 15 ''Noisy night environment degrades livability''
        [(''noise_lnight'', ''noisy'')]
        ''poor'' 0.95]"

subsection \<open>Inference engine (\<^verbatim>\<open>LiveabilityFuzzySystem\<close>)\<close>

type_synonym fuzzified = "(string \<times> (string \<times> real) list) list"
type_synonym aggregation = "(string \<times> real) list"

record activated_rule =
  act_rule_id :: int
  act_description :: string
  activation :: real

record dwelling_result =
  fli_score :: real
  linguistic_label :: string
  output_memberships :: aggregation
  activated_rules :: "activated_rule list"
  input_fuzzification :: fuzzified

text \<open>The first loop of \<^verbatim>\<open>compute_single_dwelling\<close>: fuzzify the recognised features.\<close>

fun fuzzify_inputs :: "(string \<times> real) list \<Rightarrow> fuzzified \<Rightarrow> error + fuzzified" where
  "fuzzify_inputs [] fuzzified = Inr fuzzified"
| "fuzzify_inputs ((var, v) # rest) fuzzified =
     (if map_of membership_functions var \<noteq> None
      then (case fuzzify_value var v of
              Inl e \<Rightarrow> Inl e
            | Inr m \<Rightarrow> fuzzify_inputs rest (AList.update var m fuzzified))
      else fuzzify_inputs rest fuzzified)"

text \<open>
  The inner loop over \<^verbatim>\<open>rule['antecedents'].items()\<close>: the degree of an antecedent
  is appended when its variable and term are both in the fuzzification result, and
  the antecedent is skipped otherwise.
\<close>

fun activation_degrees :: "fuzzified \<Rightarrow> (string \<times> string) list \<Rightarrow> real list" where
  "activation_degrees fuzzified [] = []"
| "activation_degrees fuzzified ((var, term) # rest) =
     (case map_of fuzzified var of
        None \<Rightarrow> activation_degrees fuzzified rest
      | Some m \<Rightarrow>
          (case map_of m term of
             None \<Rightarrow> activation_degrees fuzzified rest
           | Some d \<Rightarrow> d # activation_degrees fuzzified rest))"

text \<open>
  The firing strength the loop body computes for one rule: \<^const>\<open>None\<close> when
  \<^verbatim>\<open>activation_degrees\<close> is empty (the body is skipped).
\<close>

definition rule_activation :: "fuzzified \<Rightarrow> rule \<Rightarrow> real option" where
  "rule_activation fuzzified r =
     (let degs = activation_degrees fuzzified (antecedents r)
      in if degs = [] then None else Some (min_list degs * weight r))"

text \<open>One iteration of the loop over the rules, on the pair of running results.\<close>

definition apply_rule :: "fuzzified \<Rightarrow> rule \<Rightarrow> aggregation \<times> activated_rule list
    \<Rightarrow> error + aggregation \<times> activated_rule list" where
  "apply_rule fuzzified r st =
     (case rule_activation fuzzified r of
        None \<Rightarrow> Inr st
      | Some a \<Rightarrow>
          (case map_of (consequent r) ''livability'' of
             None \<Rightarrow> Inl KeyError
           | Some consequent_term \<Rightarrow>
               (case map_of (fst st) consequent_term of
                  None \<Rightarrow> Inl KeyError
                | Some cur \<Rightarrow>
                    Inr (AList.update consequent_term (max cur a) (fst st),
                         if a > 0.01
                         then snd st @ [\<lparr>act_rule_id = rule_id r,
                                         act_description = description r,
                                         activation = a\<rparr>]
                         else snd st))))"

fun apply_rules :: "fuzzified \<Rightarrow> rule list \<Rightarrow> aggregation \<times> activated_rule list
    \<Rightarrow> error + aggregation \<times> activated_rule list" where
  "apply_rules fuzzified [] st = Inr st"
| "apply_rules fuzzified (r # rs) st =
     (case apply_rule fuzzified r st of
        Inl e \<Rightarrow> Inl e
      | Inr st' \<Rightarrow> apply_rules fuzzified rs st')"

definition initial_aggregation :: aggregation where
  "initial_aggregation = [(''poor'', 0), (''fair'', 0), (''good'', 0), (''excellent'', 0)]"

text \<open>
  \<^verbatim>\<open>_defuzzify_centroid\<close>: the loop clips each active term's membership function
  and takes the pointwise maximum; \<^verbatim>\<open>np.fmin\<close> of a number and \<^verbatim>\<open>None\<close> raises
  \<^verbatim>\<open>TypeError\<close>.
\<close>

fun aggregate :: "aggregation \<Rightarrow> real list \<Rightarrow> error + real list" where
  "aggregate [] aggregated = Inr aggregated"
| "aggregate ((term, a) # rest) aggregated =
     (if a > 0
      then (case get_membership_function ''livability'' term of
              Inl e \<Rightarrow> Inl e
            | Inr None \<Rightarrow> Inl TypeError
            | Inr (Some mf) \<Rightarrow>
                aggregate rest
                  (map (\<lambda>(g, c). max g c) (zip aggregated (map (min a) mf))))
      else aggregate rest aggregated)"

definition defuzzify_centroid :: "aggregation \<Rightarrow> error + real" where
  "defuzzify_centroid output =
     (case get_universe ''livability'' of
        Inl e \<Rightarrow> Inl e
      | Inr None \<Rightarrow> Inl TypeError
      | Inr (Some universe) \<Rightarrow>
          (case aggregate output (map (\<lambda>_. 0) universe) of
             Inl e \<Rightarrow> Inl e
           | Inr aggregated \<Rightarrow>
               Inr (if sum_list aggregated > 0
                    then defuzz_centroid universe aggregated
                    else 50)))"

definition get_linguistic_label :: "real \<Rightarrow> string" where
  "get_linguistic_label s =
     (if s \<ge> 65 then ''excellent''
      else if s \<ge> 45 then ''good''
      else if s \<ge> 25 then ''fair''
      else ''poor'')"

definition compute_single_dwelling :: "(string \<times> real) list \<Rightarrow> error + dwelling_result" where
  "compute_single_dwelling features =
     (case fuzzify_inputs features [] of
        Inl e \<Rightarrow> Inl e
      | Inr fuzzified \<Rightarrow>
          (case apply_rules fuzzified get_rules (initial_aggregation, []) of
             Inl e \<Rightarrow> Inl e
           | Inr (output, acts) \<Rightarrow>
               (case defuzzify_centroid output of
                  Inl e \<Rightarrow> Inl e
                | Inr s \<Rightarrow>
                    Inr \<lparr>fli_score = s,
                         linguistic_label = get_linguistic_label s,
                         output_memberships = output,
                         activated_rules = acts,
                         input_fuzzification = fuzzified\<rparr>)))"

text \<open>
  Names for what the loop over the rules reads: the consequent term of a rule, the
  degree of one antecedent pair in the fuzzification result (\<^const>\<open>None\<close> when
  the variable or the term has no entry), and the firing strength of a rule, which
  is 0 for a rule whose loop body is skipped; and the entry that the loop appends to
  \<^verbatim>\<open>activated_rules\<close> for a rule.
\<close>

definition consequent_term :: "rule \<Rightarrow> string option" where
  "consequent_term r = map_of (consequent r) ''livability''"

definition antecedent_degree :: "fuzzified \<Rightarrow> string \<times> string \<Rightarrow> real option" where
  "antecedent_degree fuzzified a =
     (case map_of fuzzified (fst a) of None \<Rightarrow> None | Some m \<Rightarrow> map_of m (snd a))"

definition firing_strength :: "fuzzified \<Rightarrow> rule \<Rightarrow> real" where
  "firing_strength fuzzified r =
     (case rule_activation fuzzified r of None \<Rightarrow> 0 | Some a \<Rightarrow> a)"

definition activated_entry :: "fuzzified \<Rightarrow> rule \<Rightarrow> activated_rule" where
  "activated_entry fuzzified r =
     \<lparr>act_rule_id = rule_id r, act_description = description r,
      activation = firing_strength fuzzified r\<rparr>"

text \<open>Every degree of a fuzzification result lies in \<open>[0,1]\<close>.\<close>

definition degrees_ok :: "fuzzified \<Rightarrow> bool" where
  "degrees_ok fuzzified \<longleftrightarrow>
     (\<forall>var m. map_of fuzzified var = Some m \<longrightarrow> (\<forall>p \<in> set m. 0 \<le> snd p \<and> snd p \<le> 1))"

text \<open>
  A rule is fully present when each of its antecedent variables has an entry in the
  fuzzified inputs, and partly present when at least one has.
\<close>

definition fully_present :: "fuzzified \<Rightarrow> rule \<Rightarrow> bool" where
  "fully_present fuzzified r = list_all (\<lambda>a. map_of fuzzified (fst a) \<noteq> None) (antecedents r)"

definition partly_present :: "fuzzified \<Rightarrow> rule \<Rightarrow> bool" where
  "partly_present fuzzified r = list_ex (\<lambda>a. map_of fuzzified (fst a) \<noteq> None) (antecedents r)"

definition no_rule_fully_present :: "fuzzified \<Rightarrow> bool" where
  "no_rule_fully_present fuzzified = list_all (\<lambda>r. \<not> fully_present fuzzified r) get_rules"

definition no_rule_partly_present :: "fuzzified \<Rightarrow> bool" where
  "no_rule_partly_present fuzzified = list_all (\<lambda>r. \<not> partly_present fuzzified r) get_rules"

definition output_terms :: "string list" where
  "output_terms = [''poor'', ''fair'', ''good'', ''excellent'']"

subsection \<open>Explanation (\<^verbatim>\<open>explain_dwelling\<close>)\<close>

text \<open>
  Python's \<^verbatim>\<open>sorted(xs, key=k, reverse=True)\<close> is stable: it reverses the list,
  sorts it stably in ascending order of the key and reverses the result, so that
  elements with equal keys keep their order. \<^verbatim>\<open>xs[:n]\<close> keeps the first
  \<open>n\<close> elements, and all but the last \<open>-n\<close> for a negative \<open>n\<close>.
\<close>

definition py_sorted_reverse :: "('a \<Rightarrow> real) \<Rightarrow> 'a list \<Rightarrow> 'a list" where
  "py_sorted_reverse key xs = rev (sort_key key (rev xs))"

definition py_slice_to :: "int \<Rightarrow> 'a list \<Rightarrow> 'a list" where
  "py_slice_to n xs = take (nat (if n < 0 then int (length xs) + n else n)) xs"

text \<open>
  The rules that \<^verbatim>\<open>explain_dwelling\<close> lists under "TOP N ACTIVATED RULES", in
  the order of the listing (the local \<^verbatim>\<open>sorted_rules\<close>). The formatting of the
  text is not modelled.
\<close>

definition explain_dwelling_sorted_rules :: "(string \<times> real) list \<Rightarrow> int \<Rightarrow> error + activated_rule list" where
  "explain_dwelling_sorted_rules features top_n_rules =
     (case compute_single_dwelling features of
        Inl e \<Rightarrow> Inl e
      | Inr result \<Rightarrow>
          Inr (py_slice_to top_n_rules (py_sorted_reverse activation (activated_rules result))))"

subsection \<open>Batch scoring (\<^verbatim>\<open>compute_batch\<close>)\<close>

text \<open>
  A row of the data frame is an association list from column name to value. The
  features of a row are collected along the feature mapping; a value for the fuzzy
  variable \<^verbatim>\<open>daylight\<close> below 10 is multiplied by 1000.
\<close>

definition default_feature_mapping :: "(string \<times> string) list" where
  "default_feature_mapping =
     [(''noise_lden'', ''noise_lden''),
      (''noise_lnight'', ''noise_lnight''),
      (''daylight_avg'', ''daylight''),
      (''view_sky'', ''view_sky''),
      (''view_greenery'', ''view_greenery''),
      (''location_poi_count'', ''location_poi'')]"

fun extract_features :: "(string \<times> string) list \<Rightarrow> (string \<times> real) list \<Rightarrow> (string \<times> real) list
    \<Rightarrow> (string \<times> real) list" where
  "extract_features [] row features = features"
| "extract_features ((dataset_col, fuzzy_var) # rest) row features =
     (case map_of row dataset_col of
        None \<Rightarrow> extract_features rest row features
      | Some v \<Rightarrow>
          extract_features rest row
            (AList.update fuzzy_var
               (if fuzzy_var = ''daylight'' \<and> v < 10 then v * 1000 else v) features))"

record batch_result =
  dwelling_id :: int
  batch_fli_score :: real
  batch_linguistic_label :: string
  num_activated_rules :: nat

fun compute_batch_rows :: "(int \<times> (string \<times> real) list) list \<Rightarrow> (string \<times> string) list
    \<Rightarrow> error + batch_result list" where
  "compute_batch_rows [] feature_mapping = Inr []"
| "compute_batch_rows ((idx, row) # rest) feature_mapping =
     (case compute_single_dwelling (extract_features feature_mapping row []) of
        Inl e \<Rightarrow> Inl e
      | Inr result \<Rightarrow>
          (case compute_batch_rows rest feature_mapping of
             Inl e \<Rightarrow> Inl e
           | Inr results \<Rightarrow>
               Inr (\<lparr>dwelling_id = idx,
                         batch_fli_score = fli_score result,
                         batch_linguistic_label = linguistic_label result,
                         num_activated_rules = length (activated_rules result)\<rparr> # results)))"

definition compute_batch :: "(int \<times> (string \<times> real) list) list \<Rightarrow> (string \<times> string) list option
    \<Rightarrow> error + batch_result list" where
  "compute_batch df feature_mapping =
     compute_batch_rows df
       (case feature_mapping of None \<Rightarrow> default_feature_mapping | Some fm \<Rightarrow> fm)"

section \<open>Properties of the library functions and of the membership model\<close>

lemma trap_degree_bounds: "0 \<le> trap_degree a b c d v \<and> trap_degree a b c d v \<le> 1"
  by (auto simp: trap_degree_def divide_simps)

lemma convex_step_bounds:
  fixes y0 y1 :: real
  assumes "x0 < v" "v \<le> x1" "0 \<le> y0" "y0 \<le> 1" "0 \<le> y1" "y1 \<le> 1"
  shows "0 \<le> y0 + (v - x0) * (y1 - y0) / (x1 - x0) \<and> y0 + (v - x0) * (y1 - y0) / (x1 - x0) \<le> 1"
proof -
  define t where "t = (v - x0) / (x1 - x0)"
  have t: "0 \<le> t" "t \<le> 1" using assms by (auto simp: t_def divide_simps)
  have eq: "y0 + (v - x0) * (y1 - y0) / (x1 - x0) = (1 - t) * y0 + t * y1"
    by (simp add: t_def algebra_simps diff_divide_distrib add_divide_distrib)
  have "0 \<le> (1 - t) * y0 + t * y1" using t assms by simp
  moreover have "(1 - t) * y0 + t * y1 \<le> (1 - t) * 1 + t * 1"
    using t assms by (intro add_mono mult_left_mono) auto
  ultimately show ?thesis unfolding eq by simp
qed

lemma interp_bounds:
  "(\<forall>p \<in> set ps. 0 \<le> snd p \<and> snd p \<le> 1) \<Longrightarrow> 0 \<le> interp ps v \<and> interp ps v \<le> 1"
proof (induction ps v rule: interp.induct)
  case (3 x0 y0 x1 y1 ps v)
  then show ?case using convex_step_bounds[of x0 v x1 y0 y1] by auto
qed auto

lemma interp_clamp_left: "v \<le> x0 \<Longrightarrow> interp ((x0, y0) # ps) v = y0"
  by (cases ps) auto

lemma interp_clamp_right:
  "ps \<noteq> [] \<Longrightarrow> sorted_wrt (<) (map fst ps) \<Longrightarrow> fst (last ps) \<le> v \<Longrightarrow> interp ps v = snd (last ps)"
proof (induction ps v rule: interp.induct)
  case (3 x0 y0 x1 y1 ps v)
  show ?case
  proof (cases "ps = []")
    case True
    with 3 show ?thesis by auto
  next
    case False
    then have "last ps \<in> set ps" by simp
    with 3(3) have "x1 < fst (last ps)" "x0 < x1" by auto
    moreover have "fst (last ps) \<le> v" using 3(4) False by simp
    ultimately have gt: "x1 < v" "x0 < v" by linarith+
    have "interp ((x1, y1) # ps) v = snd (last ((x1, y1) # ps))"
      using 3(1)[OF _ _ ] gt 3(3) 3(4) by simp
    then show ?thesis using gt False by simp
  qed
qed auto

lemma arange_sorted: "0 < step \<Longrightarrow> sorted_wrt (<) (arange start stop step)"
  by (simp add: arange_def sorted_wrt_map sorted_wrt_upt)

lemma update_fresh: "k \<notin> fst ` set al \<Longrightarrow> AList.update k v al = al @ [(k, v)]"
  by (induction al) auto

lemma memberships_of_distinct:
  "distinct (map fst acc @ map fst mfs) \<Longrightarrow>
   memberships_of u v mfs acc = acc @ map (\<lambda>(t, mf). (t, interp_membership u mf v)) mfs"
proof (induction mfs arbitrary: acc)
  case (Cons p mfs)
  obtain t mf where p: "p = (t, mf)" by (cases p)
  have fresh: "t \<notin> fst ` set acc" using Cons.prems by (auto simp: p)
  have "distinct (map fst (acc @ [(t, interp_membership u mf v)]) @ map fst mfs)"
    using Cons.prems by (auto simp: p)
  then show ?case using Cons.IH[of "acc @ [(t, interp_membership u mf v)]"] fresh
    by (simp add: p update_fresh)
qed simp

lemma arange_nonempty: "start < stop \<Longrightarrow> 0 < step \<Longrightarrow> arange start stop step \<noteq> []"
proof -
  assume "start < stop" "0 < step"
  then have "0 < (stop - start) / step" by simp
  then have "0 < \<lceil>(stop - start) / step\<rceil>" by (simp add: ceiling_less_iff less_ceiling_iff)
  then show ?thesis by (simp add: arange_def)
qed

declare trapmf.simps [simp del] trimf.simps [simp del]

lemma trapmf_bounds: "y \<in> set (trapmf u q) \<Longrightarrow> 0 \<le> y \<and> y \<le> 1"
  by (cases q) (auto simp: trapmf.simps trap_degree_bounds)

lemma trimf_bounds: "y \<in> set (trimf u q) \<Longrightarrow> 0 \<le> y \<and> y \<le> 1"
  by (cases q) (auto simp: trimf.simps trap_degree_bounds)

lemma length_trapmf [simp]: "length (trapmf u q) = length u"
  by (cases q) (simp add: trapmf.simps)

lemma length_trimf [simp]: "length (trimf u q) = length u"
  by (cases q) (simp add: trimf.simps)

lemma mf_shape:
  "map_of membership_functions variable = Some mfs \<Longrightarrow>
   \<exists>u. map_of universes variable = Some u \<and> u \<noteq> [] \<and> sorted_wrt (<) u \<and> mfs \<noteq> [] \<and>
       distinct (map fst mfs) \<and>
       (\<forall>p \<in> set mfs. length (snd p) = length u \<and> (\<forall>y \<in> set (snd p). 0 \<le> y \<and> y \<le> 1))"
  by (auto simp: membership_functions_def universes_def arange_sorted arange_nonempty
      split: if_splits dest: trapmf_bounds trimf_bounds)

lemma arange_last_below:
  assumes "start < stop" "0 < step"
  shows "last (arange start stop step) < stop"
proof -
  define x where "x = (stop - start) / step"
  define n where "n = nat \<lceil>x\<rceil>"
  have xpos: "0 < x" using assms by (simp add: x_def)
  then have cpos: "0 < \<lceil>x\<rceil>" by (simp add: less_ceiling_iff)
  then have npos: "0 < n" by (simp add: n_def)
  have "real (n - 1) = real n - 1" using npos by (simp add: of_nat_diff)
  also have "real n = of_int \<lceil>x\<rceil>" using cpos by (simp add: n_def)
  finally have "real (n - 1) < x" using ceiling_correct[of x] by simp
  then have "real (n - 1) * step < x * step" using assms(2) by simp
  also have "x * step = stop - start" using assms(2) by (simp add: x_def)
  finally have lt: "start + real (n - 1) * step < stop" by simp
  have "arange start stop step = map (\<lambda>i. start + real i * step) [0..<n]"
    by (simp add: arange_def n_def x_def)
  moreover have "[0..<n] \<noteq> []" using npos by simp
  ultimately have "last (arange start stop step) = start + real (last [0..<n]) * step"
    by (simp add: last_map)
  also have "last [0..<n] = n - 1" using npos by (cases n) simp_all
  finally show ?thesis using lt by simp
qed

lemma interp_membership_bounds:
  "\<forall>y \<in> set mf. 0 \<le> y \<and> y \<le> 1 \<Longrightarrow> 0 \<le> interp_membership u mf v \<and> interp_membership u mf v \<le> 1"
  unfolding interp_membership_def
  by (rule interp_bounds) (auto dest: set_zip_rightD)

lemma interp_membership_left:
  "u \<noteq> [] \<Longrightarrow> mf \<noteq> [] \<Longrightarrow> v \<le> hd u \<Longrightarrow> interp_membership u mf v = hd mf"
  by (cases u; cases mf) (simp_all add: interp_membership_def interp_clamp_left)

lemma interp_membership_right:
  assumes "u \<noteq> []" "length mf = length u" "sorted_wrt (<) u" "last u \<le> v"
  shows "interp_membership u mf v = last mf"
proof -
  have ne: "mf \<noteq> []" using assms by auto
  have "zip u mf \<noteq> []" using assms ne by (cases u; cases mf) auto
  moreover have "map fst (zip u mf) = u" using assms by simp
  moreover have "last (zip u mf) = (last u, last mf)"
    using assms ne by (simp add: last_zip)
  ultimately show ?thesis
    using interp_clamp_right[of "zip u mf" v] assms by (simp add: interp_membership_def)
qed

lemma fuzzify_value_known:
  assumes "map_of membership_functions variable = Some mfs"
  shows "\<exists>u. map_of universes variable = Some u \<and>
             fuzzify_value variable v = Inr (map (\<lambda>(t, mf). (t, interp_membership u mf v)) mfs)"
proof -
  from mf_shape[OF assms] obtain u where u: "map_of universes variable = Some u"
    and ne: "mfs \<noteq> []" and d: "distinct (map fst mfs)" by blast
  have "memberships_of u v mfs [] = map (\<lambda>(t, mf). (t, interp_membership u mf v)) mfs"
    using memberships_of_distinct[of "[]" mfs u v] d by simp
  then show ?thesis using assms u ne by (simp add: fuzzify_value_def)
qed

lemma fuzzify_value_total:
  "\<exists>m. fuzzify_value variable v = Inr m \<and> (\<forall>p \<in> set m. 0 \<le> snd p \<and> snd p \<le> 1)"
proof (cases "map_of membership_functions variable")
  case None
  then show ?thesis by (simp add: fuzzify_value_def)
next
  case (Some mfs)
  from mf_shape[OF Some] obtain u where
    b: "\<forall>p \<in> set mfs. length (snd p) = length u \<and> (\<forall>y \<in> set (snd p). 0 \<le> y \<and> y \<le> 1)"
    and u: "map_of universes variable = Some u" by blast
  from fuzzify_value_known[OF Some, of v] u
  have eq: "fuzzify_value variable v = Inr (map (\<lambda>(t, mf). (t, interp_membership u mf v)) mfs)"
    by auto
  have "\<forall>p \<in> set (map (\<lambda>(t, mf). (t, interp_membership u mf v)) mfs). 0 \<le> snd p \<and> snd p \<le> 1"
    using b interp_membership_bounds by fastforce
  with eq show ?thesis by blast
qed

section \<open>Lookups of undefined names\<close>

theorem lookup_of_undefined_name_does_not_fail_counterexample:
  "map_of universes ''altitude'' = None \<and>
   map_of membership_functions ''altitude'' = None \<and>
   get_universe ''altitude'' = Inr None \<and>
   fuzzify_value ''altitude'' 1 = Inr [] \<and>
   get_membership_function ''altitude'' ''quiet'' = Inr None \<and>
   get_membership_function ''noise_lden'' ''silent'' = Inr None"
  by (simp add: get_universe_def fuzzify_value_def get_membership_function_def
      universes_def membership_functions_def)

text \<open>
  Claim C3, as amended. The lookup operations of the membership model do not fail
  on an undefined name: \<^verbatim>\<open>get_universe\<close> returns \<^verbatim>\<open>None\<close> for a variable
  without a universe, \<^verbatim>\<open>fuzzify_value\<close> returns the empty mapping for a variable
  without membership functions, and \<^verbatim>\<open>get_membership_function\<close> returns
  \<^verbatim>\<open>None\<close> for an undefined variable or an undefined term. None of them ever
  produces \<open>UnknownVariable\<close> or \<open>UnknownTerm\<close>.
\<close>

theorem lookup_of_undefined_name_returns_empty:
  "(map_of universes variable = None \<longrightarrow> get_universe variable = Inr None) \<and>
   (map_of membership_functions variable = None \<longrightarrow>
      fuzzify_value variable v = Inr [] \<and> get_membership_function variable term = Inr None) \<and>
   (\<forall>mfs. map_of membership_functions variable = Some mfs \<and> map_of mfs term = None \<longrightarrow>
      get_membership_function variable term = Inr None) \<and>
   get_universe variable \<noteq> Inl UnknownVariable \<and>
   fuzzify_value variable v \<noteq> Inl UnknownVariable \<and>
   get_membership_function variable term \<noteq> Inl UnknownVariable \<and>
   get_membership_function variable term \<noteq> Inl UnknownTerm"
  using fuzzify_value_total[of variable v]
  by (auto simp: get_universe_def fuzzify_value_def get_membership_function_def split: option.splits)

theorem lookup_of_undefined_name_returns_empty_witness:
  "get_universe ''altitude'' = Inr None \<and>
   fuzzify_value ''altitude'' 7 = Inr [] \<and>
   get_membership_function ''altitude'' ''quiet'' = Inr None \<and>
   get_membership_function ''daylight'' ''dim'' = Inr None"
proof -
  have a: "map_of universes ''altitude'' = None" "map_of membership_functions ''altitude'' = None"
    by (simp_all add: universes_def membership_functions_def)
  have b: "map_of membership_functions ''daylight'' =
      Some [(''low'', trapmf (arange 0 1000 5) (0, 0, 50, 120)),
            (''medium'', trimf (arange 0 1000 5) (80, 200, 350)),
            (''high'', trapmf (arange 0 1000 5) (280, 400, 1000, 1000))]"
    by (simp add: membership_functions_def)
  show ?thesis
    using lookup_of_undefined_name_returns_empty[of "''altitude''" 7 "''quiet''"]
      lookup_of_undefined_name_returns_empty[of "''daylight''" 7 "''dim''"] a b
    by simp
qed

section \<open>Degrees of membership\<close>

text \<open>
  Claim C7. For every defined linguistic variable, every term on it and every real
  input, \<^verbatim>\<open>fuzzify_value\<close> returns a degree of membership in \<open>[0,1]\<close>; an
  input at or below the first point of the universe gets the first sampled degree
  of the term, an input at or above the last point gets the last sampled degree.
\<close>

theorem fuzzify_degree_in_unit_interval_and_clamped:
  assumes "map_of membership_functions variable = Some mfs"
    and "map_of mfs term = Some mf"
    and "map_of universes variable = Some u"
  shows "\<exists>m d. fuzzify_value variable v = Inr m \<and> map_of m term = Some d \<and>
           0 \<le> d \<and> d \<le> 1 \<and>
           (v \<le> hd u \<longrightarrow> d = hd mf) \<and> (last u \<le> v \<longrightarrow> d = last mf)"
proof -
  from mf_shape[OF assms(1)] assms(3) have
    u: "u \<noteq> []" "sorted_wrt (<) u"
    and b: "\<forall>p \<in> set mfs. length (snd p) = length u \<and> (\<forall>y \<in> set (snd p). 0 \<le> y \<and> y \<le> 1)"
    by auto
  have "(term, mf) \<in> set mfs" using assms(2) by (rule map_of_SomeD)
  with b have len: "length mf = length u" and mfb: "\<forall>y \<in> set mf. 0 \<le> y \<and> y \<le> 1" by auto
  have ne: "mf \<noteq> []" using len u by auto
  from fuzzify_value_known[OF assms(1), of v] assms(3)
  have eq: "fuzzify_value variable v = Inr (map (\<lambda>(t, mf). (t, interp_membership u mf v)) mfs)"
    by auto
  have look: "map_of (map (\<lambda>(t, mf). (t, interp_membership u mf v)) mfs) term
      = Some (interp_membership u mf v)"
    using assms(2) by (simp add: map_of_map)
  show ?thesis
    using eq look interp_membership_bounds[OF mfb, of u v]
      interp_membership_left[OF u(1) ne, of v]
      interp_membership_right[OF u(1) len u(2), of v]
    by auto
qed

theorem fuzzify_degree_in_unit_interval_and_clamped_witness:
  "\<exists>m d. fuzzify_value ''daylight'' 5000 = Inr m \<and> map_of m ''high'' = Some d \<and>
           0 \<le> d \<and> d \<le> 1 \<and>
           d = last (trapmf (arange 0 1000 5) (280, 400, 1000, 1000))"
proof -
  have a: "map_of membership_functions ''daylight'' =
      Some [(''low'', trapmf (arange 0 1000 5) (0, 0, 50, 120)),
            (''medium'', trimf (arange 0 1000 5) (80, 200, 350)),
            (''high'', trapmf (arange 0 1000 5) (280, 400, 1000, 1000))]"
    by (simp add: membership_functions_def)
  have b: "map_of [(''low'', trapmf (arange 0 1000 5) (0, 0, 50, 120)),
            (''medium'', trimf (arange 0 1000 5) (80, 200, 350)),
            (''high'', trapmf (arange 0 1000 5) (280, 400, 1000, 1000))] ''high''
      = Some (trapmf (arange 0 1000 5) (280, 400, 1000, 1000))"
    by simp
  have c: "map_of universes ''daylight'' = Some (arange 0 1000 5)"
    by (simp add: universes_def)
  have d: "last (arange 0 1000 5) \<le> 5000"
    using arange_last_below[of 0 1000 5] by simp
  show ?thesis
    using fuzzify_degree_in_unit_interval_and_clamped[OF a b c, of 5000] d by auto
qed

section \<open>Rule evaluation\<close>

lemma activation_degrees_Cons:
  "activation_degrees fz (a # ants) =
     (case antecedent_degree fz a of
        None \<Rightarrow> activation_degrees fz ants
      | Some d \<Rightarrow> d # activation_degrees fz ants)"
  by (cases a) (simp add: antecedent_degree_def split: option.splits)

lemma activation_degrees_set:
  "set (activation_degrees fz ants) = {d. \<exists>a \<in> set ants. antecedent_degree fz a = Some d}"
  by (induction ants)
    (auto simp: activation_degrees_Cons simp del: activation_degrees.simps(2) split: option.splits)

lemma activation_degrees_all:
  "\<forall>a \<in> set ants. antecedent_degree fz a \<noteq> None \<Longrightarrow>
   activation_degrees fz ants = map (\<lambda>a. the (antecedent_degree fz a)) ants"
  by (induction ants)
    (auto simp: activation_degrees_Cons simp del: activation_degrees.simps(2) split: option.splits)

lemma activation_degrees_empty_iff:
  "activation_degrees fz ants = [] \<longleftrightarrow> (\<forall>a \<in> set ants. antecedent_degree fz a = None)"
  by (induction ants)
    (auto simp: activation_degrees_Cons simp del: activation_degrees.simps(2) split: option.splits)

lemma min_list_as_Min: "xs \<noteq> [] \<Longrightarrow> min_list xs = Min (set xs)"
  by (rule min_list_Min)

text \<open>
  Claim C4. For every rule whose antecedents all have an entry in the fuzzified
  inputs, the firing strength is the minimum of the antecedent degrees multiplied
  by the weight of the rule. The rule has at least one antecedent, as all fifteen
  rules of the rule base have. The example of the claim, degrees 0.9 and 0.2 with
  weight 1.0, fires at 0.2 and not at 0.18.
\<close>

theorem firing_strength_is_min_times_weight:
  assumes "antecedents r \<noteq> []"
    and "\<forall>a \<in> set (antecedents r). antecedent_degree fz a \<noteq> None"
  shows "rule_activation fz r =
           Some (Min ((\<lambda>a. the (antecedent_degree fz a)) ` set (antecedents r)) * weight r)"
proof -
  have "activation_degrees fz (antecedents r) = map (\<lambda>a. the (antecedent_degree fz a)) (antecedents r)"
    using assms(2) by (rule activation_degrees_all)
  moreover have "map (\<lambda>a. the (antecedent_degree fz a)) (antecedents r) \<noteq> []"
    using assms(1) by simp
  ultimately show ?thesis
    by (simp add: rule_activation_def min_list_as_Min)
qed

theorem firing_strength_is_min_times_weight_witness:
  "rule_activation [(''noise_lden'', [(''quiet'', 0.9)]), (''daylight'', [(''high'', 0.2)])]
     (mk_rule 1 ''example'' [(''noise_lden'', ''quiet''), (''daylight'', ''high'')] ''excellent'' 1.0)
   = Some 0.2 \<and>
   rule_activation [(''noise_lden'', [(''quiet'', 0.9)]), (''daylight'', [(''high'', 0.2)])]
     (mk_rule 1 ''example'' [(''noise_lden'', ''quiet''), (''daylight'', ''high'')] ''excellent'' 1.0)
   \<noteq> Some 0.18"
proof -
  let ?fz = "[(''noise_lden'', [(''quiet'', 0.9)]), (''daylight'', [(''high'', 0.2::real)])]"
  let ?r = "mk_rule 1 ''example'' [(''noise_lden'', ''quiet''), (''daylight'', ''high'')] ''excellent'' 1.0"
  have h1: "antecedents ?r \<noteq> []" by (simp add: mk_rule_def)
  have h2: "\<forall>a \<in> set (antecedents ?r). antecedent_degree ?fz a \<noteq> None"
    by (simp add: mk_rule_def antecedent_degree_def del: not_None_eq)
  have eq: "rule_activation ?fz ?r = Some 0.2"
    using firing_strength_is_min_times_weight[OF h1 h2]
    by (simp add: mk_rule_def antecedent_degree_def)
  show ?thesis unfolding eq by simp
qed

text \<open>
  Claim C1, as amended. For every rule and every feature record, the firing
  strength of the rule is computed (the rule fires, possibly at strength 0) if and
  only if at least one of its antecedent (variable, term) pairs has an entry in the
  fuzzification result. The strength is then the minimum of the degrees of the
  antecedents that have an entry, multiplied by the weight; the output aggregation
  of the consequent term becomes the maximum of its current value and that
  strength, and the rule is appended to the activated rules exactly when the
  strength exceeds 0.01. If none of its antecedents has an entry, the rule
  contributes nothing: the output aggregation and the activated rules are
  unchanged.
\<close>

theorem rule_fires_iff_some_antecedent_matches:
  "(rule_activation fz r \<noteq> None \<longleftrightarrow> (\<exists>a \<in> set (antecedents r). antecedent_degree fz a \<noteq> None)) \<and>
   (\<forall>s. rule_activation fz r = Some s \<longrightarrow>
      s = Min {d. \<exists>a \<in> set (antecedents r). antecedent_degree fz a = Some d} * weight r) \<and>
   (\<forall>s t cur. rule_activation fz r = Some s \<and> consequent_term r = Some t \<and>
        map_of (fst st) t = Some cur \<longrightarrow>
      apply_rule fz r st =
        Inr (AList.update t (max cur s) (fst st),
             if 0.01 < s
             then snd st @ [\<lparr>act_rule_id = rule_id r, act_description = description r,
                             activation = s\<rparr>]
             else snd st)) \<and>
   (rule_activation fz r = None \<longrightarrow> apply_rule fz r st = Inr st)"
proof -
  have "activation_degrees fz (antecedents r) \<noteq> [] \<Longrightarrow>
      min_list (activation_degrees fz (antecedents r))
        = Min {d. \<exists>a \<in> set (antecedents r). antecedent_degree fz a = Some d}"
    by (simp add: min_list_as_Min activation_degrees_set)
  then have fires: "(rule_activation fz r \<noteq> None \<longleftrightarrow>
        (\<exists>a \<in> set (antecedents r). antecedent_degree fz a \<noteq> None)) \<and>
      (\<forall>s. rule_activation fz r = Some s \<longrightarrow>
        s = Min {d. \<exists>a \<in> set (antecedents r). antecedent_degree fz a = Some d} * weight r)"
    by (auto simp: rule_activation_def Let_def activation_degrees_empty_iff)
  have step: "\<forall>s t cur. rule_activation fz r = Some s \<and> consequent_term r = Some t \<and>
        map_of (fst st) t = Some cur \<longrightarrow>
      apply_rule fz r st =
        Inr (AList.update t (max cur s) (fst st),
             if 0.01 < s
             then snd st @ [\<lparr>act_rule_id = rule_id r, act_description = description r,
                             activation = s\<rparr>]
             else snd st)"
    by (simp add: apply_rule_def consequent_term_def)
  have skip: "rule_activation fz r = None \<longrightarrow> apply_rule fz r st = Inr st"
    by (simp add: apply_rule_def)
  show ?thesis
    by (rule conjI[OF fires[THEN conjunct1] conjI[OF fires[THEN conjunct2] conjI[OF step skip]]])
qed

lemma apply_rule_step:
  assumes "consequent_term r = Some t" "map_of agg t = Some cur"
  shows "apply_rule fz r (agg, acts) =
     Inr (case rule_activation fz r of
            None \<Rightarrow> (agg, acts)
          | Some a \<Rightarrow> (AList.update t (max cur a) agg,
                       if a > 0.01 then acts @ [activated_entry fz r] else acts))"
  using assms
  by (auto simp: apply_rule_def consequent_term_def activated_entry_def firing_strength_def
      split: option.splits)

lemma Max_insert_absorb:
  fixes c :: real
  assumes "finite A"
  shows "Max (insert c (insert a A)) = Max (insert (max c a) A)"
proof (cases "A = {}")
  case True
  then show ?thesis by (simp add: max.commute)
next
  case False
  then show ?thesis using assms by (simp add: max.assoc max.commute max.left_commute)
qed

lemma Max_insert_zero:
  fixes c :: real
  assumes "finite A" "0 \<le> c"
  shows "Max (insert c (insert 0 A)) = Max (insert c A)"
proof -
  have "Max (insert c (insert 0 A)) = Max (insert (max c 0) A)"
    using assms(1) by (rule Max_insert_absorb)
  also have "max c 0 = c" using assms(2) by simp
  finally show ?thesis .
qed

lemma update_nonneg:
  "\<forall>p \<in> set al. (0::real) \<le> snd p \<Longrightarrow> 0 \<le> v \<Longrightarrow> \<forall>p \<in> set (AList.update k v al). 0 \<le> snd p"
  by (induction al) auto

lemma update_keys_same:
  "k \<in> fst ` set al \<Longrightarrow> map fst (AList.update k v al) = map fst al"
  by (induction al) auto

lemma apply_rules_char:
  assumes "\<forall>r \<in> set rs. \<exists>t. consequent_term r = Some t \<and> t \<in> fst ` set agg"
    and "\<forall>p \<in> set agg. 0 \<le> snd p"
  shows "\<exists>agg'. apply_rules fz rs (agg, acts) =
            Inr (agg', acts @ map (activated_entry fz) (filter (\<lambda>r. 0.01 < firing_strength fz r) rs)) \<and>
          map fst agg' = map fst agg \<and>
          (\<forall>t cur. map_of agg t = Some cur \<longrightarrow>
             map_of agg' t = Some (Max (insert cur
               (firing_strength fz ` {r \<in> set rs. consequent_term r = Some t}))))"
  using assms
proof (induction rs arbitrary: agg acts)
  case Nil
  then show ?case by simp
next
  case (Cons r rs)
  let ?F = "firing_strength fz"
  from Cons.prems(1) obtain t where t: "consequent_term r = Some t" "t \<in> fst ` set agg" by auto
  then obtain cur0 where cur0: "map_of agg t = Some cur0"
    by (cases "map_of agg t") (auto simp: map_of_eq_None_iff)
  have "(t, cur0) \<in> set agg" using cur0 by (rule map_of_SomeD)
  with Cons.prems(2) have cur0_nonneg: "0 \<le> cur0" by fastforce
  have img_same: "?F ` {x \<in> set (r # rs). consequent_term x = Some t} =
      insert (?F r) (?F ` {x \<in> set rs. consequent_term x = Some t})"
    using t(1) by auto
  have img_other: "?F ` {x \<in> set (r # rs). consequent_term x = Some t'} =
      ?F ` {x \<in> set rs. consequent_term x = Some t'}" if "t' \<noteq> t" for t'
    using t(1) that by auto
  have fin: "finite (?F ` {x \<in> set rs. consequent_term x = Some t'})" for t' by simp
  show ?case
  proof (cases "rule_activation fz r")
    case None
    then have F0: "?F r = 0" by (simp add: firing_strength_def)
    have step: "apply_rule fz r (agg, acts) = Inr (agg, acts)"
      using apply_rule_step[OF t(1) cur0, of fz acts] None by simp
    from Cons.IH[of agg acts] Cons.prems obtain agg' where
      ih: "apply_rules fz rs (agg, acts) =
            Inr (agg', acts @ map (activated_entry fz) (filter (\<lambda>r. 0.01 < ?F r) rs))"
        "map fst agg' = map fst agg"
        "\<forall>t cur. map_of agg t = Some cur \<longrightarrow>
             map_of agg' t = Some (Max (insert cur (?F ` {r \<in> set rs. consequent_term r = Some t})))"
      by auto
    have "\<forall>t' cur. map_of agg t' = Some cur \<longrightarrow>
        map_of agg' t' = Some (Max (insert cur (?F ` {x \<in> set (r # rs). consequent_term x = Some t'})))"
    proof (intro allI impI)
      fix t' cur assume a: "map_of agg t' = Some cur"
      then have "(t', cur) \<in> set agg" by (rule map_of_SomeD)
      with Cons.prems(2) have nn: "0 \<le> cur" by fastforce
      have "Max (insert cur (?F ` {x \<in> set (r # rs). consequent_term x = Some t'}))
          = Max (insert cur (?F ` {x \<in> set rs. consequent_term x = Some t'}))"
      proof (cases "t' = t")
        case True
        show ?thesis unfolding True img_same F0
          by (rule Max_insert_zero[OF fin[of t] nn])
      next
        case False
        show ?thesis unfolding img_other[OF False] by (rule refl)
      qed
      moreover have "map_of agg' t' = Some (Max (insert cur (?F ` {x \<in> set rs. consequent_term x = Some t'})))"
        using ih(3) a by blast
      ultimately show "map_of agg' t' = Some (Max (insert cur (?F ` {x \<in> set (r # rs). consequent_term x = Some t'})))"
        by (simp only:)
    qed
    with ih step F0 show ?thesis by simp
  next
    case (Some a)
    then have Fa: "?F r = a" by (simp add: firing_strength_def)
    let ?agg1 = "AList.update t (max cur0 a) agg"
    let ?acts1 = "if a > 0.01 then acts @ [activated_entry fz r] else acts"
    have step: "apply_rule fz r (agg, acts) = Inr (?agg1, ?acts1)"
      using apply_rule_step[OF t(1) cur0, of fz acts] Some by simp
    have keys1: "map fst ?agg1 = map fst agg" using t(2) by (rule update_keys_same)
    have nn1: "\<forall>p \<in> set ?agg1. 0 \<le> snd p"
      using Cons.prems(2) cur0_nonneg by (intro update_nonneg) auto
    have pre1: "\<forall>r \<in> set rs. \<exists>t. consequent_term r = Some t \<and> t \<in> fst ` set ?agg1"
    proof -
      have "fst ` set ?agg1 = fst ` set agg" using keys1 by (metis list.set_map)
      then show ?thesis using Cons.prems(1) by simp
    qed
    from Cons.IH[OF pre1 nn1, of ?acts1] obtain agg' where
      ih: "apply_rules fz rs (?agg1, ?acts1) =
            Inr (agg', ?acts1 @ map (activated_entry fz) (filter (\<lambda>r. 0.01 < ?F r) rs))"
        "map fst agg' = map fst ?agg1"
        "\<forall>t' cur. map_of ?agg1 t' = Some cur \<longrightarrow>
             map_of agg' t' = Some (Max (insert cur (?F ` {r \<in> set rs. consequent_term r = Some t'})))"
      by auto
    have "\<forall>t' cur. map_of agg t' = Some cur \<longrightarrow>
        map_of agg' t' = Some (Max (insert cur (?F ` {x \<in> set (r # rs). consequent_term x = Some t'})))"
    proof (intro allI impI)
      fix t' cur assume a': "map_of agg t' = Some cur"
      show "map_of agg' t' = Some (Max (insert cur (?F ` {x \<in> set (r # rs). consequent_term x = Some t'})))"
      proof (cases "t' = t")
        case True
        then have c: "cur = cur0" using a' cur0 by simp
        have "map_of ?agg1 t = Some (max cur0 a)" by (simp add: update_conv')
        then have "map_of agg' t = Some (Max (insert (max cur0 a) (?F ` {x \<in> set rs. consequent_term x = Some t})))"
          using ih(3) by blast
        moreover have "Max (insert cur0 (insert a (?F ` {x \<in> set rs. consequent_term x = Some t})))
            = Max (insert (max cur0 a) (?F ` {x \<in> set rs. consequent_term x = Some t}))"
          using fin[of t] by (rule Max_insert_absorb)
        ultimately show ?thesis unfolding True img_same Fa c by (simp only:)
      next
        case False
        then have "map_of ?agg1 t' = Some cur" using a' by (simp add: update_conv')
        then have "map_of agg' t' = Some (Max (insert cur (?F ` {x \<in> set rs. consequent_term x = Some t'})))"
          using ih(3) by blast
        then show ?thesis unfolding img_other[OF False] .
      qed
    qed
    with ih step keys1 Fa show ?thesis by auto
  qed
qed

subsection \<open>Facts about the rule base\<close>

lemma get_rules_consequent:
  "r \<in> set get_rules \<Longrightarrow> \<exists>t. consequent_term r = Some t \<and> t \<in> set output_terms"
  by (auto simp: get_rules_def mk_rule_def consequent_term_def output_terms_def)

lemma get_rules_weight: "r \<in> set get_rules \<Longrightarrow> 0 < weight r \<and> weight r \<le> 1"
  by (auto simp: get_rules_def mk_rule_def)

lemma get_rules_antecedents_nonempty: "r \<in> set get_rules \<Longrightarrow> antecedents r \<noteq> []"
  by (auto simp: get_rules_def mk_rule_def)

lemma get_rules_ids: "map rule_id get_rules = [1, 2, 3, 4, 5, 6, 7, 8, 9, 10, 11, 12, 13, 14, 15]"
  by (simp add: get_rules_def mk_rule_def)

lemma get_rules_ids_sorted: "sorted_wrt (<) (map rule_id get_rules)"
  unfolding get_rules_ids by simp

subsection \<open>Fuzzification of a feature record\<close>

lemma fuzzify_inputs_total:
  "degrees_ok acc \<Longrightarrow> \<exists>fz. fuzzify_inputs fs acc = Inr fz \<and> degrees_ok fz \<and>
      fst ` set fz \<subseteq> fst ` set acc \<union> fst ` set fs"
proof (induction fs arbitrary: acc)
  case Nil
  then show ?case by simp
next
  case (Cons p fs)
  obtain var v where p: "p = (var, v)" by (cases p)
  show ?case
  proof (cases "map_of membership_functions var")
    case None
    from Cons.IH[OF Cons.prems] obtain fz where
      fz: "fuzzify_inputs fs acc = Inr fz" "degrees_ok fz"
      "fst ` set fz \<subseteq> fst ` set acc \<union> fst ` set fs" by blast
    have "fuzzify_inputs (p # fs) acc = Inr fz" using None fz(1) by (simp add: p)
    moreover have "fst ` set fz \<subseteq> fst ` set acc \<union> fst ` set (p # fs)" using fz(3) by auto
    ultimately show ?thesis using fz(2) by blast
  next
    case (Some mfs)
    from fuzzify_value_total[of var v] obtain m where
      m: "fuzzify_value var v = Inr m" "\<forall>p \<in> set m. 0 \<le> snd p \<and> snd p \<le> 1" by blast
    have ok: "degrees_ok (AList.update var m acc)"
      using Cons.prems m(2) by (auto simp: degrees_ok_def update_conv')
    have keys: "fst ` set (AList.update var m acc) \<subseteq> insert var (fst ` set acc)"
      by (induction acc) auto
    from Cons.IH[OF ok] obtain fz where
      fz: "fuzzify_inputs fs (AList.update var m acc) = Inr fz" "degrees_ok fz"
      "fst ` set fz \<subseteq> fst ` set (AList.update var m acc) \<union> fst ` set fs" by blast
    have "fuzzify_inputs (p # fs) acc = Inr fz" using Some m(1) fz(1) by (simp add: p)
    moreover have "fst ` set fz \<subseteq> fst ` set acc \<union> fst ` set (p # fs)"
      using fz(3) keys by (auto simp: p)
    ultimately show ?thesis using fz(2) by blast
  qed
qed

lemma antecedent_degree_bounds:
  "degrees_ok fz \<Longrightarrow> antecedent_degree fz a = Some d \<Longrightarrow> 0 \<le> d \<and> d \<le> 1"
  by (fastforce simp: degrees_ok_def antecedent_degree_def split: option.splits dest: map_of_SomeD)

lemma min_list_in_set:
  fixes xs :: "real list"
  shows "xs \<noteq> [] \<Longrightarrow> min_list xs \<in> set xs"
  by (simp add: min_list_Min)

lemma rule_activation_bounds:
  assumes "degrees_ok fz" "0 < weight r" "weight r \<le> 1" "rule_activation fz r = Some a"
  shows "0 \<le> a \<and> a \<le> 1"
proof -
  let ?ds = "activation_degrees fz (antecedents r)"
  from assms(4) have ne: "?ds \<noteq> []" and a: "a = min_list ?ds * weight r"
    by (auto simp: rule_activation_def Let_def split: if_splits)
  from min_list_in_set[OF ne] obtain x where "x \<in> set (antecedents r)"
      "antecedent_degree fz x = Some (min_list ?ds)"
    by (auto simp: activation_degrees_set)
  then have b: "0 \<le> min_list ?ds" "min_list ?ds \<le> 1"
    using antecedent_degree_bounds[OF assms(1)] by auto
  have "min_list ?ds * weight r \<le> 1 * 1"
    using b assms(2,3) by (intro mult_mono) auto
  then show ?thesis using a b assms(2) by simp
qed

lemma firing_strength_bounds:
  assumes "degrees_ok fz" "r \<in> set get_rules"
  shows "0 \<le> firing_strength fz r \<and> firing_strength fz r \<le> 1"
  using rule_activation_bounds[OF assms(1)] get_rules_weight[OF assms(2)]
  by (auto simp: firing_strength_def split: option.splits)

subsection \<open>Defuzzification\<close>

lemma livability_universe: "map_of universes ''livability'' = Some (arange 0 101 1)"
  by (simp add: universes_def)

lemma length_livability_universe: "length (arange 0 101 1) = 101"
  by (simp add: arange_def)

lemma livability_universe_range: "u \<in> set (arange 0 101 1) \<Longrightarrow> 0 \<le> u \<and> u \<le> 100"
  by (auto simp: arange_def)

lemma livability_mf:
  "t \<in> set output_terms \<Longrightarrow>
   \<exists>mf. get_membership_function ''livability'' t = Inr (Some mf) \<and> length mf = 101"
  by (auto simp: output_terms_def get_membership_function_def membership_functions_def
      length_livability_universe)

lemma aggregate_total:
  assumes "fst ` set out \<subseteq> set output_terms" "length agg0 = 101" "\<forall>y \<in> set agg0. 0 \<le> y"
  shows "\<exists>agg. aggregate out agg0 = Inr agg \<and> length agg = 101 \<and> (\<forall>y \<in> set agg. 0 \<le> y)"
  using assms
proof (induction out arbitrary: agg0)
  case Nil
  then show ?case by simp
next
  case (Cons p out)
  obtain t a where p: "p = (t, a)" by (cases p)
  have rest: "fst ` set out \<subseteq> set output_terms" using Cons.prems(1) by auto
  show ?case
  proof (cases "a > 0")
    case False
    then show ?thesis using Cons.IH[OF rest Cons.prems(2,3)] by (simp add: p)
  next
    case True
    have "t \<in> set output_terms" using Cons.prems(1) by (auto simp: p)
    from livability_mf[OF this] obtain mf where
      mf: "get_membership_function ''livability'' t = Inr (Some mf)" "length mf = 101" by blast
    let ?agg1 = "map (\<lambda>(g, c). max g c) (zip agg0 (map (min a) mf))"
    have len: "length ?agg1 = 101" using Cons.prems(2) mf(2) by simp
    have nn: "\<forall>y \<in> set ?agg1. 0 \<le> y"
    proof
      fix y assume "y \<in> set ?agg1"
      then obtain g c where "(g, c) \<in> set (zip agg0 (map (min a) mf))" "y = max g c" by auto
      moreover from this have "g \<in> set agg0" by (auto dest: set_zip_leftD)
      ultimately show "0 \<le> y" using Cons.prems(3) by (auto simp: max_def)
    qed
    from Cons.IH[OF rest len nn] show ?thesis using True mf(1) by (simp add: p)
  qed
qed

lemma aggregate_inactive:
  "\<forall>p \<in> set out. snd p \<le> 0 \<Longrightarrow> aggregate out agg0 = Inr agg0"
  by (induction out arbitrary: agg0) auto

lemma weighted_sum_bounds:
  fixes lo hi :: real
  assumes "length x = length e" "\<forall>u \<in> set x. lo \<le> u \<and> u \<le> hi" "\<forall>y \<in> set e. 0 \<le> y"
  shows "lo * sum_list e \<le> sum_list (map (\<lambda>(u, y). u * y) (zip x e)) \<and>
         sum_list (map (\<lambda>(u, y). u * y) (zip x e)) \<le> hi * sum_list e"
  using assms
proof (induction x e rule: list_induct2)
  case Nil
  then show ?case by simp
next
  case (Cons u x y e)
  then have ih: "lo * sum_list e \<le> sum_list (map (\<lambda>(u, y). u * y) (zip x e))"
      "sum_list (map (\<lambda>(u, y). u * y) (zip x e)) \<le> hi * sum_list e" by auto
  have "lo * y \<le> u * y" "u * y \<le> hi * y"
    using Cons.prems by (auto intro: mult_right_mono)
  with ih show ?case by (simp add: algebra_simps)
qed

lemma defuzz_centroid_bounds:
  fixes lo hi :: real
  assumes "length x = length e" "\<forall>u \<in> set x. lo \<le> u \<and> u \<le> hi" "\<forall>y \<in> set e. 0 \<le> y"
    and "0 < sum_list e"
  shows "lo \<le> defuzz_centroid x e \<and> defuzz_centroid x e \<le> hi"
  using weighted_sum_bounds[OF assms(1-3)] assms(4)
  by (simp add: defuzz_centroid_def pos_le_divide_eq pos_divide_le_eq)

lemma defuzzify_centroid_total:
  assumes "fst ` set out \<subseteq> set output_terms"
  shows "\<exists>s. defuzzify_centroid out = Inr s \<and> 0 \<le> s \<and> s \<le> 100"
proof -
  let ?u = "arange 0 101 1"
  have "\<exists>agg. aggregate out (map (\<lambda>_. 0) ?u) = Inr agg \<and> length agg = 101 \<and> (\<forall>y \<in> set agg. 0 \<le> y)"
    using assms by (intro aggregate_total) (simp_all add: length_livability_universe)
  then obtain agg where agg: "aggregate out (map (\<lambda>_. 0) ?u) = Inr agg" "length agg = 101"
    "\<forall>y \<in> set agg. 0 \<le> y" by blast
  have eq: "defuzzify_centroid out =
      Inr (if sum_list agg > 0 then defuzz_centroid ?u agg else 50)"
    using agg(1) by (simp add: defuzzify_centroid_def get_universe_def livability_universe)
  show ?thesis
  proof (cases "sum_list agg > 0")
    case True
    have "0 \<le> defuzz_centroid ?u agg \<and> defuzz_centroid ?u agg \<le> 100"
      using agg(2,3) True livability_universe_range
      by (intro defuzz_centroid_bounds) (simp_all add: length_livability_universe)
    with eq True show ?thesis by simp
  next
    case False
    with eq show ?thesis by simp
  qed
qed

lemma defuzzify_centroid_default:
  assumes "\<forall>p \<in> set out. snd p \<le> 0"
  shows "defuzzify_centroid out = Inr 50"
proof -
  have "sum_list (map (\<lambda>_. 0::real) (arange 0 101 1)) = 0"
    by (induction "arange 0 101 1") (simp_all add: sum_list_0)
  then show ?thesis
    using aggregate_inactive[OF assms, of "map (\<lambda>_. 0) (arange 0 101 1)"]
    by (simp add: defuzzify_centroid_def get_universe_def livability_universe)
qed

subsection \<open>The result of scoring a record\<close>

lemma initial_aggregation_keys: "map fst initial_aggregation = output_terms"
  by (simp add: initial_aggregation_def output_terms_def)

lemma compute_single_dwelling_char:
  "\<exists>fz out s.
     fuzzify_inputs fs [] = Inr fz \<and> degrees_ok fz \<and> fst ` set fz \<subseteq> fst ` set fs \<and>
     apply_rules fz get_rules (initial_aggregation, []) =
       Inr (out, map (activated_entry fz) (filter (\<lambda>r. 0.01 < firing_strength fz r) get_rules)) \<and>
     map fst out = output_terms \<and>
     (\<forall>t \<in> set output_terms. map_of out t =
        Some (Max (insert 0 (firing_strength fz ` {r \<in> set get_rules. consequent_term r = Some t})))) \<and>
     defuzzify_centroid out = Inr s \<and> 0 \<le> s \<and> s \<le> 100 \<and>
     compute_single_dwelling fs =
       Inr \<lparr>fli_score = s, linguistic_label = get_linguistic_label s,
            output_memberships = out,
            activated_rules = map (activated_entry fz) (filter (\<lambda>r. 0.01 < firing_strength fz r) get_rules),
            input_fuzzification = fz\<rparr>"
proof -
  have "degrees_ok []" by (simp add: degrees_ok_def)
  from fuzzify_inputs_total[OF this, of fs] obtain fz where
    fz: "fuzzify_inputs fs [] = Inr fz" "degrees_ok fz" "fst ` set fz \<subseteq> fst ` set fs" by auto
  let ?acts = "map (activated_entry fz) (filter (\<lambda>r. 0.01 < firing_strength fz r) get_rules)"
  have pre: "\<forall>r \<in> set get_rules. \<exists>t. consequent_term r = Some t \<and> t \<in> fst ` set initial_aggregation"
    using get_rules_consequent initial_aggregation_keys by (metis list.set_map)
  have nn: "\<forall>p \<in> set initial_aggregation. 0 \<le> snd p" by (simp add: initial_aggregation_def)
  from apply_rules_char[OF pre nn, of fz "[]"] obtain out where
    out: "apply_rules fz get_rules (initial_aggregation, []) = Inr (out, ?acts)"
      "map fst out = map fst initial_aggregation"
      "\<forall>t cur. map_of initial_aggregation t = Some cur \<longrightarrow>
         map_of out t = Some (Max (insert cur (firing_strength fz ` {r \<in> set get_rules. consequent_term r = Some t})))"
    by auto
  have keys: "map fst out = output_terms" using out(2) initial_aggregation_keys by simp
  have vals: "\<forall>t \<in> set output_terms. map_of out t =
        Some (Max (insert 0 (firing_strength fz ` {r \<in> set get_rules. consequent_term r = Some t})))"
  proof
    fix t assume "t \<in> set output_terms"
    then have "map_of initial_aggregation t = Some 0"
      by (auto simp: output_terms_def initial_aggregation_def)
    with out(3) show "map_of out t =
        Some (Max (insert 0 (firing_strength fz ` {r \<in> set get_rules. consequent_term r = Some t})))"
      by blast
  qed
  have "fst ` set out \<subseteq> set output_terms" using keys by (metis list.set_map order_refl)
  from defuzzify_centroid_total[OF this] obtain s where
    s: "defuzzify_centroid out = Inr s" "0 \<le> s" "s \<le> 100" by blast
  have "compute_single_dwelling fs =
       Inr \<lparr>fli_score = s, linguistic_label = get_linguistic_label s,
            output_memberships = out, activated_rules = ?acts, input_fuzzification = fz\<rparr>"
    using fz(1) out(1) s(1) by (simp add: compute_single_dwelling_def)
  with fz out(1) keys vals s show ?thesis by blast
qed

subsection \<open>A record with a single feature\<close>

lemma arange_hd: "start < stop \<Longrightarrow> 0 < step \<Longrightarrow> hd (arange start stop step) = start"
proof -
  assume a: "start < stop" "0 < step"
  then have "0 < (stop - start) / step" by simp
  then have "0 < nat \<lceil>(stop - start) / step\<rceil>" by (simp add: less_ceiling_iff)
  then obtain n where "nat \<lceil>(stop - start) / step\<rceil> = Suc n" by (auto simp: gr0_conv_Suc)
  then show ?thesis by (simp add: arange_def upt_conv_Cons del: upt_Suc)
qed

lemma hd_trapmf: "u \<noteq> [] \<Longrightarrow> hd (trapmf u (a, b, c, d)) = trap_degree a b c d (hd u)"
  by (simp add: trapmf.simps hd_map)

lemma hd_trimf: "u \<noteq> [] \<Longrightarrow> hd (trimf u (a, b, c)) = trap_degree a b b c (hd u)"
  by (simp add: trimf.simps hd_map)

lemma fuzzify_view_greenery_zero:
  "fuzzify_value ''view_greenery'' 0 = Inr [(''poor'', 1), (''moderate'', 0), (''good'', 0)]"
proof -
  let ?u = "arange 0 2 0.02"
  have mfs: "map_of membership_functions ''view_greenery'' =
      Some [(''poor'', trapmf ?u (0, 0, 0.1, 0.4)),
            (''moderate'', trimf ?u (0.2, 0.6, 1.0)),
            (''good'', trapmf ?u (0.7, 1.2, 2, 2))]"
    by (simp add: membership_functions_def)
  have u: "map_of universes ''view_greenery'' = Some ?u" by (simp add: universes_def)
  have ne: "?u \<noteq> []" by (rule arange_nonempty) simp_all
  have h: "hd ?u = 0" by (rule arange_hd) simp_all
  have left: "interp_membership ?u mf 0 = hd mf" if "length mf = length ?u" for mf
    using that ne h by (intro interp_membership_left) auto
  from fuzzify_value_known[OF mfs, of 0] u
  have "fuzzify_value ''view_greenery'' 0 =
      Inr [(''poor'', interp_membership ?u (trapmf ?u (0, 0, 0.1, 0.4)) 0),
           (''moderate'', interp_membership ?u (trimf ?u (0.2, 0.6, 1.0)) 0),
           (''good'', interp_membership ?u (trapmf ?u (0.7, 1.2, 2, 2)) 0)]"
    by simp
  moreover have "interp_membership ?u (trapmf ?u (0, 0, 0.1, 0.4)) 0 = 1"
    using left[of "trapmf ?u (0, 0, 0.1, 0.4)"] hd_trapmf[OF ne, of 0 0 "0.1" "0.4"] h
    by (simp add: trap_degree_def)
  moreover have "interp_membership ?u (trimf ?u (0.2, 0.6, 1.0)) 0 = 0"
    using left[of "trimf ?u (0.2, 0.6, 1.0)"] hd_trimf[OF ne, of "0.2" "0.6" "1.0"] h
    by (simp add: trap_degree_def)
  moreover have "interp_membership ?u (trapmf ?u (0.7, 1.2, 2, 2)) 0 = 0"
    using left[of "trapmf ?u (0.7, 1.2, 2, 2)"] hd_trapmf[OF ne, of "0.7" "1.2" 2 2] h
    by (simp add: trap_degree_def)
  ultimately show ?thesis by (simp only:)
qed

lemma fuzzify_inputs_view_greenery_zero:
  "fuzzify_inputs [(''view_greenery'', 0)] [] =
     Inr [(''view_greenery'', [(''poor'', 1), (''moderate'', 0), (''good'', 0)])]"
  by (simp add: fuzzify_view_greenery_zero membership_functions_def)

lemma apply_rules_view_greenery_zero:
  "apply_rules [(''view_greenery'', [(''poor'', 1), (''moderate'', 0), (''good'', 0)])]
     get_rules (initial_aggregation, []) =
   Inr ([(''poor'', 1), (''fair'', 0), (''good'', 0), (''excellent'', 0)],
        [\<lparr>act_rule_id = 10, act_description = ''Low daylight with poor views'',
          activation = 1\<rparr>])"
  by code_simp

lemma clip_at_one:
  assumes "length u = length mf" "\<forall>y \<in> set mf. (0::real) \<le> y \<and> y \<le> 1"
  shows "map (\<lambda>(g, c). max g c) (zip (map (\<lambda>_. 0) u) (map (min 1) mf)) = mf"
  using assms by (induction u mf rule: list_induct2) auto

lemma aggregate_poor_only:
  "aggregate [(''poor'', 1), (''fair'', 0), (''good'', 0), (''excellent'', 0)]
     (map (\<lambda>_. 0) (arange 0 101 1)) =
   Inr (trapmf (arange 0 101 1) (0, 0, 15, 35))"
proof -
  have mf: "get_membership_function ''livability'' ''poor'' =
      Inr (Some (trapmf (arange 0 101 1) (0, 0, 15, 35)))"
    by (simp add: get_membership_function_def membership_functions_def)
  have "map (\<lambda>(g, c). max g c)
          (zip (map (\<lambda>_. 0) (arange 0 101 1)) (map (min 1) (trapmf (arange 0 101 1) (0, 0, 15, 35))))
        = trapmf (arange 0 101 1) (0, 0, 15, 35)"
    by (rule clip_at_one) (auto dest: trapmf_bounds)
  then show ?thesis by (simp add: mf)
qed

lemma poor_sum: "sum_list (trapmf (arange 0 101 1) (0, 0, 15, 35)) = 51 / 2"
  by code_simp

lemma poor_moment:
  "sum_list (map (\<lambda>(u, e). u * e)
     (zip (arange 0 101 1) (trapmf (arange 0 101 1) (0, 0, 15, 35)))) = 329"
  by code_simp

lemma defuzzify_poor_only:
  "defuzzify_centroid [(''poor'', 1), (''fair'', 0), (''good'', 0), (''excellent'', 0)] = Inr (658 / 51)"
proof -
  have "defuzzify_centroid [(''poor'', 1), (''fair'', 0), (''good'', 0), (''excellent'', 0)] =
      Inr (if sum_list (trapmf (arange 0 101 1) (0, 0, 15, 35)) > 0
           then defuzz_centroid (arange 0 101 1) (trapmf (arange 0 101 1) (0, 0, 15, 35))
           else 50)"
    unfolding defuzzify_centroid_def get_universe_def
    by (simp only: livability_universe aggregate_poor_only sum.case option.case)
  then show ?thesis by (simp add: poor_sum poor_moment defuzz_centroid_def)
qed

lemma score_view_greenery_zero:
  "compute_single_dwelling [(''view_greenery'', 0)] =
     Inr \<lparr>fli_score = 658 / 51, linguistic_label = ''poor'',
          output_memberships = [(''poor'', 1), (''fair'', 0), (''good'', 0), (''excellent'', 0)],
          activated_rules =
            [\<lparr>act_rule_id = 10, act_description = ''Low daylight with poor views'',
              activation = 1\<rparr>],
          input_fuzzification =
            [(''view_greenery'', [(''poor'', 1), (''moderate'', 0), (''good'', 0)])]\<rparr>"
  unfolding compute_single_dwelling_def
  by (simp only: fuzzify_inputs_view_greenery_zero apply_rules_view_greenery_zero
      defuzzify_poor_only sum.case prod.case)
    (simp add: get_linguistic_label_def)

section \<open>Properties of the score\<close>

lemma rules_for_term_nonempty:
  "t \<in> set output_terms \<Longrightarrow> {r \<in> set get_rules. consequent_term r = Some t} \<noteq> {}"
proof -
  have "consequent_term (get_rules ! 0) = Some ''excellent''"
       "consequent_term (get_rules ! 2) = Some ''good''"
       "consequent_term (get_rules ! 5) = Some ''fair''"
       "consequent_term (get_rules ! 8) = Some ''poor''"
    by (simp_all add: get_rules_def mk_rule_def consequent_term_def)
  moreover have "get_rules ! 0 \<in> set get_rules" "get_rules ! 2 \<in> set get_rules"
     "get_rules ! 5 \<in> set get_rules" "get_rules ! 8 \<in> set get_rules"
    by (simp_all add: get_rules_def)
  moreover assume "t \<in> set output_terms"
  ultimately show ?thesis by (auto simp: output_terms_def)
qed

text \<open>
  Claim C5. For every feature record and every output term, the aggregated
  activation of the term is the maximum (not the sum) of the firing strengths of
  the rules of the rule base with that consequent term, where a rule that does not
  fire has firing strength 0.
\<close>

theorem aggregation_is_max_of_firing_strengths:
  assumes "t \<in> set output_terms"
  shows "\<exists>res fz. compute_single_dwelling fs = Inr res \<and> fuzzify_inputs fs [] = Inr fz \<and>
           map_of (output_memberships res) t =
             Some (Max (firing_strength fz ` {r \<in> set get_rules. consequent_term r = Some t}))"
proof -
  from compute_single_dwelling_char[of fs] obtain fz out s where
    c: "fuzzify_inputs fs [] = Inr fz" "degrees_ok fz"
      "\<forall>t \<in> set output_terms. map_of out t =
        Some (Max (insert 0 (firing_strength fz ` {r \<in> set get_rules. consequent_term r = Some t})))"
      "compute_single_dwelling fs =
       Inr \<lparr>fli_score = s, linguistic_label = get_linguistic_label s,
            output_memberships = out,
            activated_rules = map (activated_entry fz) (filter (\<lambda>r. 0.01 < firing_strength fz r) get_rules),
            input_fuzzification = fz\<rparr>"
    by blast
  let ?S = "firing_strength fz ` {r \<in> set get_rules. consequent_term r = Some t}"
  have fin: "finite ?S" by simp
  have ne: "?S \<noteq> {}" using rules_for_term_nonempty[OF assms] by simp
  have "\<forall>x \<in> ?S. 0 \<le> x" using firing_strength_bounds[OF c(2)] by auto
  then have "0 \<le> Max ?S" using fin ne by (meson Max_in)
  then have "Max (insert 0 ?S) = Max ?S" using fin ne by (simp add: max_def)
  with c(3) assms have "map_of out t = Some (Max ?S)" by simp
  with c(1,4) show ?thesis by simp
qed

text \<open>
  Claim C6. For every feature record, the score is returned (no exception) and
  lies between 0 and 100 inclusive.
\<close>

theorem score_within_output_universe:
  "\<exists>res. compute_single_dwelling fs = Inr res \<and> 0 \<le> fli_score res \<and> fli_score res \<le> 100"
  using compute_single_dwelling_char[of fs] by force

text \<open>
  Claim C10. For every feature record, \<^verbatim>\<open>activated_rules\<close> holds exactly the
  rules whose firing strength exceeds 0.01, in the order of the rule base; every
  activation lies in \<open>(0.01, 1]\<close>, and the rule ids are ascending and within
  \<open>1..15\<close>.
\<close>

theorem activated_rules_are_the_significant_rules:
  "\<exists>res fz. compute_single_dwelling fs = Inr res \<and> fuzzify_inputs fs [] = Inr fz \<and>
     activated_rules res =
       map (activated_entry fz) (filter (\<lambda>r. 0.01 < firing_strength fz r) get_rules) \<and>
     (\<forall>e \<in> set (activated_rules res). 0.01 < activation e \<and> activation e \<le> 1) \<and>
     sorted_wrt (<) (map act_rule_id (activated_rules res)) \<and>
     set (map act_rule_id (activated_rules res)) \<subseteq> {1..15}"
proof -
  from compute_single_dwelling_char[of fs] obtain fz out s where
    c: "fuzzify_inputs fs [] = Inr fz" "degrees_ok fz"
      "compute_single_dwelling fs =
       Inr \<lparr>fli_score = s, linguistic_label = get_linguistic_label s,
            output_memberships = out,
            activated_rules = map (activated_entry fz) (filter (\<lambda>r. 0.01 < firing_strength fz r) get_rules),
            input_fuzzification = fz\<rparr>"
    by blast
  let ?sel = "filter (\<lambda>r. 0.01 < firing_strength fz r) get_rules"
  let ?acts = "map (activated_entry fz) ?sel"
  have ids_eq: "map act_rule_id ?acts = map rule_id ?sel"
    by (simp add: activated_entry_def comp_def)
  have bounds: "\<forall>e \<in> set ?acts. 0.01 < activation e \<and> activation e \<le> 1"
    using firing_strength_bounds[OF c(2)] by (auto simp: activated_entry_def)
  have "sorted_wrt (<) (map rule_id ?sel)"
    using get_rules_ids_sorted by (simp add: sorted_wrt_map sorted_wrt_filter)
  then have sorted: "sorted_wrt (<) (map act_rule_id ?acts)" by (simp only: ids_eq)
  have "set (map rule_id ?sel) \<subseteq> set (map rule_id get_rules)" by auto
  also have "\<dots> \<subseteq> {1..15}" unfolding get_rules_ids by simp
  finally have range: "set (map act_rule_id ?acts) \<subseteq> {1..15}" by (simp only: ids_eq)
  let ?res = "\<lparr>fli_score = s, linguistic_label = get_linguistic_label s,
            output_memberships = out, activated_rules = ?acts, input_fuzzification = fz\<rparr>"
  have sel: "activated_rules ?res = ?acts" by simp
  show ?thesis
    using c(1,3) bounds sorted range
    by (intro exI[of _ ?res] exI[of _ fz] conjI) (simp_all only: sel)
qed

text \<open>
  Two rules with the same consequent term that fire at 0.3 and 0.6 give the term
  the aggregated activation 0.6, not 0.9.
\<close>

lemma aggregation_example_max_not_sum:
  "apply_rules [(''noise_lden'', [(''quiet'', 0.3)]), (''daylight'', [(''high'', 0.6)])]
     [mk_rule 1 ''first'' [(''noise_lden'', ''quiet'')] ''good'' 1.0,
      mk_rule 2 ''second'' [(''daylight'', ''high'')] ''good'' 1.0]
     (initial_aggregation, []) =
   Inr ([(''poor'', 0), (''fair'', 0), (''good'', 0.6), (''excellent'', 0)],
        [\<lparr>act_rule_id = 1, act_description = ''first'', activation = 0.3\<rparr>,
         \<lparr>act_rule_id = 2, act_description = ''second'', activation = 0.6\<rparr>])"
  by code_simp

theorem aggregation_is_max_of_firing_strengths_witness:
  "''poor'' \<in> set output_terms \<and>
   (\<exists>res fz. compute_single_dwelling [(''view_greenery'', 0)] = Inr res \<and>
      fuzzify_inputs [(''view_greenery'', 0)] [] = Inr fz \<and>
      map_of (output_memberships res) ''poor'' = Some 1 \<and>
      Max (firing_strength fz ` {r \<in> set get_rules. consequent_term r = Some ''poor''}) = 1)"
proof -
  have h: "''poor'' \<in> set output_terms" by (simp add: output_terms_def)
  from aggregation_is_max_of_firing_strengths[OF h, of "[(''view_greenery'', 0)]"]
  obtain res fz where r: "compute_single_dwelling [(''view_greenery'', 0)] = Inr res"
    "fuzzify_inputs [(''view_greenery'', 0)] [] = Inr fz"
    "map_of (output_memberships res) ''poor'' =
       Some (Max (firing_strength fz ` {r \<in> set get_rules. consequent_term r = Some ''poor''}))"
    by blast
  from r(1) have "map_of (output_memberships res) ''poor'' = Some 1"
    by (auto simp: score_view_greenery_zero)
  with r h show ?thesis by auto
qed

theorem activated_rules_are_the_significant_rules_witness:
  "\<exists>res fz. compute_single_dwelling [(''view_greenery'', 0)] = Inr res \<and>
     fuzzify_inputs [(''view_greenery'', 0)] [] = Inr fz \<and>
     activated_rules res =
       [\<lparr>act_rule_id = 10, act_description = ''Low daylight with poor views'', activation = 1\<rparr>] \<and>
     map (activated_entry fz) (filter (\<lambda>r. 0.01 < firing_strength fz r) get_rules) =
       [\<lparr>act_rule_id = 10, act_description = ''Low daylight with poor views'', activation = 1\<rparr>] \<and>
     (\<forall>e \<in> set (activated_rules res). 0.01 < activation e \<and> activation e \<le> 1)"
proof -
  from activated_rules_are_the_significant_rules[of "[(''view_greenery'', 0)]"]
  obtain res fz where r: "compute_single_dwelling [(''view_greenery'', 0)] = Inr res"
    "fuzzify_inputs [(''view_greenery'', 0)] [] = Inr fz"
    "activated_rules res =
       map (activated_entry fz) (filter (\<lambda>r. 0.01 < firing_strength fz r) get_rules)"
    "\<forall>e \<in> set (activated_rules res). 0.01 < activation e \<and> activation e \<le> 1"
    by blast
  from r(1) have "activated_rules res =
       [\<lparr>act_rule_id = 10, act_description = ''Low daylight with poor views'', activation = 1\<rparr>]"
    by (auto simp: score_view_greenery_zero)
  with r show ?thesis by auto
qed

theorem rule_fires_with_missing_antecedent_counterexample:
  "fuzzify_inputs [(''view_greenery'', 0)] [] =
     Inr [(''view_greenery'', [(''poor'', 1), (''moderate'', 0), (''good'', 0)])] \<and>
   rule_id (get_rules ! 9) = 10 \<and>
   antecedents (get_rules ! 9) =
     [(''daylight'', ''low''), (''view_sky'', ''poor''), (''view_greenery'', ''poor'')] \<and>
   antecedent_degree [(''view_greenery'', [(''poor'', 1), (''moderate'', 0), (''good'', 0)])]
     (''daylight'', ''low'') = None \<and>
   rule_activation [(''view_greenery'', [(''poor'', 1), (''moderate'', 0), (''good'', 0)])]
     (get_rules ! 9) = Some 1 \<and>
   apply_rule [(''view_greenery'', [(''poor'', 1), (''moderate'', 0), (''good'', 0)])]
     (get_rules ! 9) (initial_aggregation, []) =
     Inr ([(''poor'', 1), (''fair'', 0), (''good'', 0), (''excellent'', 0)],
          [\<lparr>act_rule_id = 10, act_description = ''Low daylight with poor views'',
            activation = 1\<rparr>]) \<and>
   map_sum id activated_rules (compute_single_dwelling [(''view_greenery'', 0)]) =
     Inr [\<lparr>act_rule_id = 10, act_description = ''Low daylight with poor views'',
           activation = 1\<rparr>]"
proof -
  have r: "get_rules ! 9 = mk_rule 10 ''Low daylight with poor views''
        [(''daylight'', ''low''), (''view_sky'', ''poor''), (''view_greenery'', ''poor'')]
        ''poor'' 1.0"
    by (simp add: get_rules_def)
  have rules: "rule_id (get_rules ! 9) = 10 \<and>
   antecedents (get_rules ! 9) =
     [(''daylight'', ''low''), (''view_sky'', ''poor''), (''view_greenery'', ''poor'')] \<and>
   antecedent_degree [(''view_greenery'', [(''poor'', 1), (''moderate'', 0), (''good'', 0)])]
     (''daylight'', ''low'') = None \<and>
   rule_activation [(''view_greenery'', [(''poor'', 1), (''moderate'', 0), (''good'', 0)])]
     (get_rules ! 9) = Some 1 \<and>
   apply_rule [(''view_greenery'', [(''poor'', 1), (''moderate'', 0), (''good'', 0)])]
     (get_rules ! 9) (initial_aggregation, []) =
     Inr ([(''poor'', 1), (''fair'', 0), (''good'', 0), (''excellent'', 0)],
          [\<lparr>act_rule_id = 10, act_description = ''Low daylight with poor views'',
            activation = 1\<rparr>])"
    unfolding r
    by (simp add: mk_rule_def antecedent_degree_def rule_activation_def apply_rule_def
        initial_aggregation_def)
  have score: "map_sum id activated_rules (compute_single_dwelling [(''view_greenery'', 0)]) =
     Inr [\<lparr>act_rule_id = 10, act_description = ''Low daylight with poor views'',
           activation = 1\<rparr>]"
    by (simp add: score_view_greenery_zero)
  from fuzzify_inputs_view_greenery_zero rules score show ?thesis by (simp only: simp_thms)
qed

theorem rule_fires_iff_some_antecedent_matches_witness:
  "rule_activation [] (get_rules ! 9) = None \<and>
   apply_rule [] (get_rules ! 9) (initial_aggregation, []) = Inr (initial_aggregation, []) \<and>
   rule_activation [(''view_greenery'', [(''poor'', 1), (''moderate'', 0), (''good'', 0)])]
     (get_rules ! 9) = Some 1 \<and>
   apply_rule [(''view_greenery'', [(''poor'', 1), (''moderate'', 0), (''good'', 0)])]
     (get_rules ! 9) (initial_aggregation, []) =
     Inr ([(''poor'', 1), (''fair'', 0), (''good'', 0), (''excellent'', 0)],
          [\<lparr>act_rule_id = 10, act_description = ''Low daylight with poor views'',
            activation = 1\<rparr>])"
proof -
  let ?fz = "[(''view_greenery'', [(''poor'', 1::real), (''moderate'', 0), (''good'', 0)])]"
  let ?st = "(initial_aggregation, []::activated_rule list)"
  have r: "get_rules ! 9 = mk_rule 10 ''Low daylight with poor views''
        [(''daylight'', ''low''), (''view_sky'', ''poor''), (''view_greenery'', ''poor'')]
        ''poor'' 1.0"
    by (simp add: get_rules_def)
  have none: "\<not> (\<exists>a \<in> set (antecedents (get_rules ! 9)). antecedent_degree [] a \<noteq> None)"
    by (simp add: antecedent_degree_def)
  have some: "\<exists>a \<in> set (antecedents (get_rules ! 9)). antecedent_degree ?fz a \<noteq> None"
    unfolding r by (simp add: mk_rule_def antecedent_degree_def del: not_None_eq)
  have set_eq: "{d. \<exists>a \<in> set (antecedents (get_rules ! 9)). antecedent_degree ?fz a = Some d} = {1}"
    unfolding r by (auto simp: mk_rule_def antecedent_degree_def)
  have w: "weight (get_rules ! 9) = 1" unfolding r by (simp add: mk_rule_def)
  have ct: "consequent_term (get_rules ! 9) = Some ''poor''"
    unfolding r by (simp add: mk_rule_def consequent_term_def)
  have cur: "map_of (fst ?st) ''poor'' = Some 0" by (simp add: initial_aggregation_def)
  note empty = rule_fires_iff_some_antecedent_matches[of "[]" "get_rules ! 9" ?st]
  note full = rule_fires_iff_some_antecedent_matches[of ?fz "get_rules ! 9" ?st]
  from empty[THEN conjunct1] none have a1: "rule_activation [] (get_rules ! 9) = None" by blast
  from empty[THEN conjunct2, THEN conjunct2, THEN conjunct2] a1
  have a2: "apply_rule [] (get_rules ! 9) ?st = Inr ?st" by blast
  from full[THEN conjunct1] some obtain s where s: "rule_activation ?fz (get_rules ! 9) = Some s"
    by auto
  with full[THEN conjunct2, THEN conjunct1]
  have "s = Min {d. \<exists>a \<in> set (antecedents (get_rules ! 9)). antecedent_degree ?fz a = Some d}
            * weight (get_rules ! 9)" by blast
  then have s1: "s = 1" unfolding set_eq w by simp
  from full[THEN conjunct2, THEN conjunct2, THEN conjunct1] s ct cur
  have "apply_rule ?fz (get_rules ! 9) ?st =
        Inr (AList.update ''poor'' (max 0 s) (fst ?st),
             if 0.01 < s
             then snd ?st @ [\<lparr>act_rule_id = rule_id (get_rules ! 9),
                              act_description = description (get_rules ! 9),
                              activation = s\<rparr>]
             else snd ?st)"
    by blast
  then have a4: "apply_rule ?fz (get_rules ! 9) ?st =
     Inr ([(''poor'', 1), (''fair'', 0), (''good'', 0), (''excellent'', 0)],
          [\<lparr>act_rule_id = 10, act_description = ''Low daylight with poor views'',
            activation = 1\<rparr>])"
    unfolding s1 r by (simp add: mk_rule_def initial_aggregation_def)
  from a1 a2 s s1 a4 show ?thesis by simp
qed

subsection \<open>Records on which no rule fires\<close>

lemma apply_rules_none:
  "\<forall>r \<in> set rs. rule_activation fz r = None \<Longrightarrow> apply_rules fz rs st = Inr st"
  by (induction rs) (auto simp: apply_rule_def)

lemma no_rule_partly_present_none:
  assumes "no_rule_partly_present fz" "r \<in> set get_rules"
  shows "rule_activation fz r = None"
proof -
  have "\<forall>a \<in> set (antecedents r). map_of fz (fst a) = None"
    using assms by (auto simp: no_rule_partly_present_def partly_present_def list_all_iff list_ex_iff)
  then have "\<forall>a \<in> set (antecedents r). antecedent_degree fz a = None"
    by (simp add: antecedent_degree_def)
  then show ?thesis by (simp add: rule_activation_def activation_degrees_empty_iff)
qed

text \<open>
  Claim C2, as amended. For every feature record in which no rule has any of its
  antecedent variables present in the fuzzified inputs (in particular the empty
  record), the score is exactly 50 and the label is \<open>good\<close>, and nothing is
  raised; the aggregated output envelope is then identically zero and the default
  is the explicit branch of \<^verbatim>\<open>_defuzzify_centroid\<close>.
\<close>

theorem default_score_when_no_antecedent_present:
  assumes "fuzzify_inputs fs [] = Inr fz" and "no_rule_partly_present fz"
  shows "compute_single_dwelling fs =
           Inr \<lparr>fli_score = 50, linguistic_label = ''good'',
                output_memberships = initial_aggregation,
                activated_rules = [], input_fuzzification = fz\<rparr> \<and>
         aggregate initial_aggregation (map (\<lambda>_. 0) (arange 0 101 1)) =
           Inr (map (\<lambda>_. 0) (arange 0 101 1))"
proof -
  have "apply_rules fz get_rules (initial_aggregation, []) = Inr (initial_aggregation, [])"
    using no_rule_partly_present_none[OF assms(2)] by (intro apply_rules_none) simp
  moreover have z: "\<forall>p \<in> set initial_aggregation. snd p \<le> 0"
    by (simp add: initial_aggregation_def)
  moreover have "defuzzify_centroid initial_aggregation = Inr 50"
    using z by (rule defuzzify_centroid_default)
  ultimately show ?thesis
    using assms(1) aggregate_inactive[OF z]
    by (simp add: compute_single_dwelling_def get_linguistic_label_def)
qed

theorem default_score_when_no_antecedent_present_witness:
  "fuzzify_inputs [(''altitude'', 430)] [] = Inr [] \<and> no_rule_partly_present [] \<and>
   compute_single_dwelling [(''altitude'', 430)] =
     Inr \<lparr>fli_score = 50, linguistic_label = ''good'',
          output_memberships = initial_aggregation,
          activated_rules = [], input_fuzzification = []\<rparr> \<and>
   compute_single_dwelling [] =
     Inr \<lparr>fli_score = 50, linguistic_label = ''good'',
          output_memberships = initial_aggregation,
          activated_rules = [], input_fuzzification = []\<rparr>"
proof -
  have a: "fuzzify_inputs [(''altitude'', 430)] [] = Inr []"
    by (simp add: membership_functions_def)
  have b: "fuzzify_inputs [] [] = Inr []" by simp
  have c: "no_rule_partly_present []"
    by (simp add: no_rule_partly_present_def partly_present_def list_all_iff list_ex_iff)
  show ?thesis
    using default_score_when_no_antecedent_present[OF a c]
      default_score_when_no_antecedent_present[OF b c] a c
    by simp
qed

theorem default_score_with_partial_antecedents_counterexample:
  "fuzzify_inputs [(''view_greenery'', 0)] [] =
     Inr [(''view_greenery'', [(''poor'', 1), (''moderate'', 0), (''good'', 0)])] \<and>
   no_rule_fully_present [(''view_greenery'', [(''poor'', 1), (''moderate'', 0), (''good'', 0)])] \<and>
   compute_single_dwelling [(''view_greenery'', 0)] =
     Inr \<lparr>fli_score = 658 / 51, linguistic_label = ''poor'',
          output_memberships = [(''poor'', 1), (''fair'', 0), (''good'', 0), (''excellent'', 0)],
          activated_rules =
            [\<lparr>act_rule_id = 10, act_description = ''Low daylight with poor views'',
              activation = 1\<rparr>],
          input_fuzzification =
            [(''view_greenery'', [(''poor'', 1), (''moderate'', 0), (''good'', 0)])]\<rparr> \<and>
   (658 / 51 :: real) \<noteq> 50"
proof -
  have "no_rule_fully_present [(''view_greenery'', [(''poor'', 1), (''moderate'', 0), (''good'', 0)])]"
    by (simp add: no_rule_fully_present_def fully_present_def get_rules_def mk_rule_def)
  moreover have "(658 / 51 :: real) \<noteq> 50" by simp
  ultimately show ?thesis
    using fuzzify_inputs_view_greenery_zero score_view_greenery_zero by (simp only: simp_thms)
qed

section \<open>Order of the explanation\<close>

lemma insort_key_keeps_order:
  fixes key :: "'a \<Rightarrow> real" and ident :: "'a \<Rightarrow> int"
  assumes "sorted_wrt (\<lambda>a b. key a < key b \<or> (key a = key b \<and> ident b < ident a)) ys"
    and "\<forall>y \<in> set ys. ident y < ident z"
  shows "sorted_wrt (\<lambda>a b. key a < key b \<or> (key a = key b \<and> ident b < ident a))
           (insort_key key z ys)"
  using assms
proof (induction ys)
  case Nil
  then show ?case by simp
next
  case (Cons y ys)
  show ?case
  proof (cases "key z \<le> key y")
    case True
    have "\<forall>w \<in> set (y # ys). key z < key w \<or> (key z = key w \<and> ident w < ident z)"
    proof
      fix w assume w: "w \<in> set (y # ys)"
      then have "key y \<le> key w" using Cons.prems(1) by auto
      with True have "key z \<le> key w" by simp
      moreover have "ident w < ident z" using w Cons.prems(2) by blast
      ultimately show "key z < key w \<or> (key z = key w \<and> ident w < ident z)" by auto
    qed
    with True Cons.prems(1) show ?thesis by simp
  next
    case False
    then have "key y < key z" by simp
    moreover have "sorted_wrt (\<lambda>a b. key a < key b \<or> (key a = key b \<and> ident b < ident a))
        (insort_key key z ys)"
      using Cons.IH Cons.prems by simp
    ultimately show ?thesis using False Cons.prems(1) by (auto simp: set_insort_key)
  qed
qed

lemma sort_key_descending_ids:
  fixes key :: "'a \<Rightarrow> real" and ident :: "'a \<Rightarrow> int"
  assumes "sorted_wrt (\<lambda>a b. ident b < ident a) zs"
  shows "sorted_wrt (\<lambda>a b. key a < key b \<or> (key a = key b \<and> ident b < ident a)) (sort_key key zs)"
  using assms
proof (induction zs)
  case Nil
  then show ?case by simp
next
  case (Cons z zs)
  have "sorted_wrt (\<lambda>a b. key a < key b \<or> (key a = key b \<and> ident b < ident a)) (sort_key key zs)"
    using Cons by simp
  moreover have "\<forall>y \<in> set (sort_key key zs). ident y < ident z" using Cons.prems by simp
  ultimately show ?case by (simp add: insort_key_keeps_order)
qed

lemma py_sorted_reverse_order:
  fixes key :: "'a \<Rightarrow> real" and ident :: "'a \<Rightarrow> int"
  assumes "sorted_wrt (<) (map ident xs)"
  shows "sorted_wrt (\<lambda>a b. key b < key a \<or> (key a = key b \<and> ident a < ident b))
           (py_sorted_reverse key xs)"
proof -
  have "sorted_wrt (\<lambda>a b. ident b < ident a) (rev xs)"
    using assms by (simp add: sorted_wrt_rev sorted_wrt_map)
  then have "sorted_wrt (\<lambda>a b. key a < key b \<or> (key a = key b \<and> ident b < ident a))
      (sort_key key (rev xs))"
    by (rule sort_key_descending_ids)
  then have "sorted_wrt (\<lambda>b a. key a < key b \<or> (key a = key b \<and> ident b < ident a))
      (rev (sort_key key (rev xs)))"
    by (simp add: sorted_wrt_rev)
  then show ?thesis
    unfolding py_sorted_reverse_def by (rule sorted_wrt_mono_rel[rotated]) auto
qed

lemma set_py_sorted_reverse: "set (py_sorted_reverse key xs) = set xs"
  by (simp add: py_sorted_reverse_def)

lemma length_py_sorted_reverse: "length (py_sorted_reverse key xs) = length xs"
  by (simp add: py_sorted_reverse_def)

lemma sorted_wrt_py_slice_to: "sorted_wrt P xs \<Longrightarrow> sorted_wrt P (py_slice_to n xs)"
  by (simp add: py_slice_to_def sorted_wrt_take)

text \<open>
  Claim C8. In the explanation of any feature record, for any top-N, the activated
  rules are listed in descending order of firing strength, and of two rules with
  equal firing strengths the one with the lower id comes first. The listing is the
  first N elements of the stably sorted activated rules.
\<close>

theorem explanation_lists_rules_by_strength_then_id:
  "\<exists>res rs. compute_single_dwelling fs = Inr res \<and>
     explain_dwelling_sorted_rules fs top_n = Inr rs \<and>
     rs = py_slice_to top_n (py_sorted_reverse activation (activated_rules res)) \<and>
     set (py_sorted_reverse activation (activated_rules res)) = set (activated_rules res) \<and>
     sorted_wrt (\<lambda>a b. activation b < activation a \<or>
                   (activation a = activation b \<and> act_rule_id a < act_rule_id b)) rs"
proof -
  from compute_single_dwelling_char[of fs] obtain fz out s where
    c: "compute_single_dwelling fs =
       Inr \<lparr>fli_score = s, linguistic_label = get_linguistic_label s,
            output_memberships = out,
            activated_rules = map (activated_entry fz) (filter (\<lambda>r. 0.01 < firing_strength fz r) get_rules),
            input_fuzzification = fz\<rparr>"
    by blast
  let ?acts = "map (activated_entry fz) (filter (\<lambda>r. 0.01 < firing_strength fz r) get_rules)"
  let ?res = "\<lparr>fli_score = s, linguistic_label = get_linguistic_label s,
            output_memberships = out, activated_rules = ?acts, input_fuzzification = fz\<rparr>"
  have ids: "map act_rule_id ?acts = map rule_id (filter (\<lambda>r. 0.01 < firing_strength fz r) get_rules)"
    by (simp add: activated_entry_def comp_def)
  have "sorted_wrt (<) (map rule_id (filter (\<lambda>r. 0.01 < firing_strength fz r) get_rules))"
    using get_rules_ids_sorted by (simp add: sorted_wrt_map sorted_wrt_filter)
  then have "sorted_wrt (<) (map act_rule_id ?acts)" by (simp only: ids)
  then have "sorted_wrt (\<lambda>a b. activation b < activation a \<or>
                   (activation a = activation b \<and> act_rule_id a < act_rule_id b))
      (py_slice_to top_n (py_sorted_reverse activation ?acts))"
    by (intro sorted_wrt_py_slice_to py_sorted_reverse_order)
  moreover have "explain_dwelling_sorted_rules fs top_n =
      Inr (py_slice_to top_n (py_sorted_reverse activation ?acts))"
    by (simp add: explain_dwelling_sorted_rules_def c)
  moreover have "activated_rules ?res = ?acts" by simp
  ultimately show ?thesis
    using c set_py_sorted_reverse[of activation ?acts]
    by (intro exI[of _ ?res] exI[of _ "py_slice_to top_n (py_sorted_reverse activation ?acts)"] conjI)
       (simp_all only:)
qed

subsection \<open>Values at the edges of a universe\<close>

lemma fuzzify_value_at_start:
  assumes "map_of membership_functions var = Some mfs" "map_of universes var = Some u" "v \<le> hd u"
  shows "fuzzify_value var v = Inr (map (\<lambda>(t, mf). (t, hd mf)) mfs)"
proof -
  from mf_shape[OF assms(1)] assms(2) have u: "u \<noteq> []"
    and len: "\<forall>p \<in> set mfs. length (snd p) = length u" by auto
  have "map (\<lambda>(t, mf). (t, interp_membership u mf v)) mfs = map (\<lambda>(t, mf). (t, hd mf)) mfs"
  proof (rule map_cong[OF refl])
    fix p assume p: "p \<in> set mfs"
    obtain t mf where tm: "p = (t, mf)" by (cases p)
    have "mf \<noteq> []" using len p u by (auto simp: tm)
    then have "interp_membership u mf v = hd mf"
      using u assms(3) by (intro interp_membership_left)
    then show "(case p of (t, mf) \<Rightarrow> (t, interp_membership u mf v)) = (case p of (t, mf) \<Rightarrow> (t, hd mf))"
      by (simp add: tm)
  qed
  with fuzzify_value_known[OF assms(1), of v] assms(2) show ?thesis by simp
qed

lemma fuzzify_value_at_end:
  assumes "map_of membership_functions var = Some mfs" "map_of universes var = Some u" "last u \<le> v"
  shows "fuzzify_value var v = Inr (map (\<lambda>(t, mf). (t, last mf)) mfs)"
proof -
  from mf_shape[OF assms(1)] assms(2) have u: "u \<noteq> []" "sorted_wrt (<) u"
    and len: "\<forall>p \<in> set mfs. length (snd p) = length u" by auto
  have "map (\<lambda>(t, mf). (t, interp_membership u mf v)) mfs = map (\<lambda>(t, mf). (t, last mf)) mfs"
  proof (rule map_cong[OF refl])
    fix p assume p: "p \<in> set mfs"
    obtain t mf where tm: "p = (t, mf)" by (cases p)
    have "length mf = length u" using len p by (auto simp: tm)
    then have "interp_membership u mf v = last mf"
      using u assms(3) by (intro interp_membership_right)
    then show "(case p of (t, mf) \<Rightarrow> (t, interp_membership u mf v)) = (case p of (t, mf) \<Rightarrow> (t, last mf))"
      by (simp add: tm)
  qed
  with fuzzify_value_known[OF assms(1), of v] assms(2) show ?thesis by simp
qed

lemma fuzzify_location_poi_zero:
  "fuzzify_value ''location_poi'' 0 = Inr [(''low'', 1), (''medium'', 0), (''high'', 0)]"
proof -
  let ?u = "arange 0 100 1"
  have mfs: "map_of membership_functions ''location_poi'' =
      Some [(''low'', trapmf ?u (0, 0, 5, 15)),
            (''medium'', trimf ?u (10, 25, 40)),
            (''high'', trapmf ?u (35, 50, 100, 100))]"
    by (simp add: membership_functions_def)
  have u: "map_of universes ''location_poi'' = Some ?u" by (simp add: universes_def)
  have ne: "?u \<noteq> []" by (rule arange_nonempty) simp_all
  have h: "hd ?u = 0" by (rule arange_hd) simp_all
  have "fuzzify_value ''location_poi'' 0 =
      Inr [(''low'', hd (trapmf ?u (0, 0, 5, 15))),
           (''medium'', hd (trimf ?u (10, 25, 40))),
           (''high'', hd (trapmf ?u (35, 50, 100, 100)))]"
    using fuzzify_value_at_start[OF mfs u, of 0] h by simp
  then show ?thesis
    unfolding hd_trapmf[OF ne] hd_trimf[OF ne] h by (simp add: trap_degree_def)
qed

lemma fuzzify_noise_lnight_start:
  "fuzzify_value ''noise_lnight'' 25 = Inr [(''quiet'', 1), (''moderate'', 0), (''noisy'', 0)]"
proof -
  let ?u = "arange 25 75 0.5"
  have mfs: "map_of membership_functions ''noise_lnight'' =
      Some [(''quiet'', trapmf ?u (25, 25, 40, 47)),
            (''moderate'', trimf ?u (42, 50, 58)),
            (''noisy'', trapmf ?u (53, 60, 75, 75))]"
    by (simp add: membership_functions_def)
  have u: "map_of universes ''noise_lnight'' = Some ?u" by (simp add: universes_def)
  have ne: "?u \<noteq> []" by (rule arange_nonempty) simp_all
  have h: "hd ?u = 25" by (rule arange_hd) simp_all
  have "fuzzify_value ''noise_lnight'' 25 =
      Inr [(''quiet'', hd (trapmf ?u (25, 25, 40, 47))),
           (''moderate'', hd (trimf ?u (42, 50, 58))),
           (''noisy'', hd (trapmf ?u (53, 60, 75, 75)))]"
    using fuzzify_value_at_start[OF mfs u, of 25] h by simp
  then show ?thesis
    unfolding hd_trapmf[OF ne] hd_trimf[OF ne] h by (simp add: trap_degree_def)
qed

lemma fuzzify_view_sky_zero:
  "fuzzify_value ''view_sky'' 0 = Inr [(''poor'', 1), (''moderate'', 0), (''good'', 0)]"
proof -
  let ?u = "arange 0 4 0.05"
  have mfs: "map_of membership_functions ''view_sky'' =
      Some [(''poor'', trapmf ?u (0, 0, 0.5, 1.2)),
            (''moderate'', trimf ?u (0.8, 1.5, 2.3)),
            (''good'', trapmf ?u (2.0, 2.8, 4, 4))]"
    by (simp add: membership_functions_def)
  have u: "map_of universes ''view_sky'' = Some ?u" by (simp add: universes_def)
  have ne: "?u \<noteq> []" by (rule arange_nonempty) simp_all
  have h: "hd ?u = 0" by (rule arange_hd) simp_all
  have "fuzzify_value ''view_sky'' 0 =
      Inr [(''poor'', hd (trapmf ?u (0, 0, 0.5, 1.2))),
           (''moderate'', hd (trimf ?u (0.8, 1.5, 2.3))),
           (''good'', hd (trapmf ?u (2.0, 2.8, 4, 4)))]"
    using fuzzify_value_at_start[OF mfs u, of 0] h by simp
  then show ?thesis
    unfolding hd_trapmf[OF ne] hd_trimf[OF ne] h by (simp add: trap_degree_def)
qed

lemma fuzzify_inputs_three_features:
  "fuzzify_inputs [(''location_poi'', 0), (''noise_lnight'', 25), (''view_sky'', 0)] [] =
     Inr [(''location_poi'', [(''low'', 1), (''medium'', 0), (''high'', 0)]),
          (''noise_lnight'', [(''quiet'', 1), (''moderate'', 0), (''noisy'', 0)]),
          (''view_sky'', [(''poor'', 1), (''moderate'', 0), (''good'', 0)])]"
proof -
  have k: "map_of membership_functions ''location_poi'' \<noteq> None"
    "map_of membership_functions ''noise_lnight'' \<noteq> None"
    "map_of membership_functions ''view_sky'' \<noteq> None"
    by (simp_all add: membership_functions_def del: not_None_eq)
  show ?thesis
    by (simp only: fuzzify_inputs.simps k if_True fuzzify_location_poi_zero
        fuzzify_noise_lnight_start fuzzify_view_sky_zero sum.case)
       simp
qed

lemma apply_rules_three_features:
  "map_sum id snd (apply_rules
     [(''location_poi'', [(''low'', 1), (''medium'', 0), (''high'', 0)]),
      (''noise_lnight'', [(''quiet'', 1), (''moderate'', 0), (''noisy'', 0)]),
      (''view_sky'', [(''poor'', 1), (''moderate'', 0), (''good'', 0)])]
     get_rules (initial_aggregation, [])) =
   Inr [\<lparr>act_rule_id = 7, act_description = ''Quiet but low daylight and poor views'',
          activation = 1\<rparr>,
        \<lparr>act_rule_id = 10, act_description = ''Low daylight with poor views'',
          activation = 1\<rparr>,
        \<lparr>act_rule_id = 11, act_description = ''Moderate noise with low daylight and poor views'',
          activation = 0.9\<rparr>,
        \<lparr>act_rule_id = 12, act_description = ''Poor accessibility with low environmental quality'',
          activation = 0.7\<rparr>,
        \<lparr>act_rule_id = 14, act_description = ''Good greenery view with quiet night environment'',
          activation = 0.9\<rparr>]"
  by code_simp

theorem explanation_lists_rules_by_strength_then_id_witness:
  "\<exists>res rs. compute_single_dwelling [(''location_poi'', 0), (''noise_lnight'', 25), (''view_sky'', 0)] = Inr res \<and>
     explain_dwelling_sorted_rules [(''location_poi'', 0), (''noise_lnight'', 25), (''view_sky'', 0)] 4 = Inr rs \<and>
     map act_rule_id (activated_rules res) = [7, 10, 11, 12, 14] \<and>
     map activation (activated_rules res) = [1, 1, 0.9, 0.7, 0.9] \<and>
     map act_rule_id rs = [7, 10, 11, 14] \<and>
     map activation rs = [1, 1, 0.9, 0.9] \<and>
     sorted_wrt (\<lambda>a b. activation b < activation a \<or>
                   (activation a = activation b \<and> act_rule_id a < act_rule_id b)) rs"
proof -
  let ?fs = "[(''location_poi'', 0), (''noise_lnight'', 25), (''view_sky'', 0::real)]"
  let ?acts = "[\<lparr>act_rule_id = 7, act_description = ''Quiet but low daylight and poor views'',
          activation = 1\<rparr>,
        \<lparr>act_rule_id = 10, act_description = ''Low daylight with poor views'',
          activation = 1\<rparr>,
        \<lparr>act_rule_id = 11, act_description = ''Moderate noise with low daylight and poor views'',
          activation = 0.9\<rparr>,
        \<lparr>act_rule_id = 12, act_description = ''Poor accessibility with low environmental quality'',
          activation = 0.7\<rparr>,
        \<lparr>act_rule_id = 14, act_description = ''Good greenery view with quiet night environment'',
          activation = 0.9::real\<rparr>]"
  from compute_single_dwelling_char[of ?fs] obtain fz out s where
    c: "fuzzify_inputs ?fs [] = Inr fz"
       "apply_rules fz get_rules (initial_aggregation, []) =
         Inr (out, map (activated_entry fz) (filter (\<lambda>r. 0.01 < firing_strength fz r) get_rules))"
       "compute_single_dwelling ?fs =
         Inr \<lparr>fli_score = s, linguistic_label = get_linguistic_label s,
              output_memberships = out,
              activated_rules = map (activated_entry fz) (filter (\<lambda>r. 0.01 < firing_strength fz r) get_rules),
              input_fuzzification = fz\<rparr>"
    by blast
  have fz: "fz = [(''location_poi'', [(''low'', 1), (''medium'', 0), (''high'', 0)]),
          (''noise_lnight'', [(''quiet'', 1), (''moderate'', 0), (''noisy'', 0)]),
          (''view_sky'', [(''poor'', 1), (''moderate'', 0), (''good'', 0)])]"
    using c(1) unfolding fuzzify_inputs_three_features by simp
  have acts: "map (activated_entry fz) (filter (\<lambda>r. 0.01 < firing_strength fz r) get_rules) = ?acts"
    using apply_rules_three_features c(2) unfolding fz by simp
  from explanation_lists_rules_by_strength_then_id[of ?fs 4] obtain res rs where
    r: "compute_single_dwelling ?fs = Inr res"
       "explain_dwelling_sorted_rules ?fs 4 = Inr rs"
       "rs = py_slice_to 4 (py_sorted_reverse activation (activated_rules res))"
       "sorted_wrt (\<lambda>a b. activation b < activation a \<or>
                   (activation a = activation b \<and> act_rule_id a < act_rule_id b)) rs"
    by blast
  have ar: "activated_rules res = ?acts" using r(1) c(3) acts by auto
  have rs: "rs = [?acts ! 0, ?acts ! 1, ?acts ! 2, ?acts ! 4]"
    unfolding r(3) ar by (simp add: py_slice_to_def py_sorted_reverse_def)
  show ?thesis
    using r(1,2,4) ar rs by (intro exI[of _ res] exI[of _ rs]) simp
qed

section \<open>Unit conversion of daylight values\<close>

lemma extract_features_other:
  "fv \<notin> snd ` set fm \<Longrightarrow> map_of (extract_features fm row acc) fv = map_of acc fv"
proof (induction fm arbitrary: acc)
  case Nil
  then show ?case by simp
next
  case (Cons e fm)
  obtain c f where e: "e = (c, f)" by (cases e)
  have "f \<noteq> fv" "fv \<notin> snd ` set fm" using Cons.prems by (auto simp: e)
  then show ?case using Cons.IH
    by (cases "map_of row c") (simp_all add: e update_conv')
qed

lemma extract_features_lookup:
  assumes "distinct (map snd fm)" "(col, fv) \<in> set fm" "map_of row col = Some v"
  shows "map_of (extract_features fm row acc) fv =
           Some (if fv = ''daylight'' \<and> v < 10 then v * 1000 else v)"
  using assms
proof (induction fm arbitrary: acc)
  case Nil
  then show ?case by simp
next
  case (Cons e fm)
  obtain c f where e: "e = (c, f)" by (cases e)
  show ?case
  proof (cases "(c, f) = (col, fv)")
    case True
    then have "fv \<notin> snd ` set fm" using Cons.prems(1) by (auto simp: e)
    then show ?thesis
      using True Cons.prems(3) by (simp add: e extract_features_other update_conv')
  next
    case False
    then have mem: "(col, fv) \<in> set fm" using Cons.prems(2) by (auto simp: e)
    have d: "distinct (map snd fm)" using Cons.prems(1) by simp
    show ?thesis
      using Cons.IH[OF d mem Cons.prems(3)]
      by (cases "map_of row c") (simp_all add: e)
  qed
qed

lemma fuzzify_inputs_other:
  "var \<notin> fst ` set fs \<Longrightarrow> fuzzify_inputs fs acc = Inr fz \<Longrightarrow> map_of fz var = map_of acc var"
proof (induction fs arbitrary: acc)
  case Nil
  then show ?case by simp
next
  case (Cons p fs)
  obtain w x where p: "p = (w, x)" by (cases p)
  have ne: "w \<noteq> var" and rest: "var \<notin> fst ` set fs" using Cons.prems(1) by (auto simp: p)
  show ?case
  proof (cases "map_of membership_functions w")
    case None
    then show ?thesis using Cons.IH[OF rest] Cons.prems(2) by (simp add: p)
  next
    case (Some mfs)
    from fuzzify_value_total[of w x] obtain m where m: "fuzzify_value w x = Inr m" by blast
    have "fuzzify_inputs fs (AList.update w m acc) = Inr fz"
      using Cons.prems(2) Some m by (simp add: p)
    from Cons.IH[OF rest this] show ?thesis using ne by (simp add: update_conv')
  qed
qed

lemma fuzzify_inputs_lookup:
  assumes "distinct (map fst fs)" "map_of fs var = Some v"
    and "map_of membership_functions var \<noteq> None" "fuzzify_inputs fs acc = Inr fz"
  shows "\<exists>m. fuzzify_value var v = Inr m \<and> map_of fz var = Some m"
  using assms
proof (induction fs arbitrary: acc)
  case Nil
  then show ?case by simp
next
  case (Cons p fs)
  obtain w x where p: "p = (w, x)" by (cases p)
  show ?case
  proof (cases "w = var")
    case True
    then have x: "x = v" using Cons.prems(2) by (simp add: p)
    have rest: "var \<notin> fst ` set fs" using Cons.prems(1) True by (auto simp: p)
    from fuzzify_value_total[of var v] obtain m where m: "fuzzify_value var v = Inr m" by blast
    have "fuzzify_inputs fs (AList.update var m acc) = Inr fz"
      using Cons.prems(3,4) m True x by (auto simp: p)
    from fuzzify_inputs_other[OF rest this] have "map_of fz var = Some m"
      by (simp add: update_conv')
    with m show ?thesis by blast
  next
    case False
    have d: "distinct (map fst fs)" using Cons.prems(1) by simp
    have look: "map_of fs var = Some v" using Cons.prems(2) False by (simp add: p)
    show ?thesis
    proof (cases "map_of membership_functions w")
      case None
      then have "fuzzify_inputs fs acc = Inr fz" using Cons.prems(4) by (simp add: p)
      from Cons.IH[OF d look Cons.prems(3) this] show ?thesis .
    next
      case (Some mfs)
      from fuzzify_value_total[of w x] obtain m where m: "fuzzify_value w x = Inr m" by blast
      have "fuzzify_inputs fs (AList.update w m acc) = Inr fz"
        using Cons.prems(4) Some m by (simp add: p)
      from Cons.IH[OF d look Cons.prems(3) this] show ?thesis .
    qed
  qed
qed

lemma extract_features_distinct:
  "distinct (map fst acc) \<Longrightarrow> distinct (map fst (extract_features fm row acc))"
proof (induction fm arbitrary: acc)
  case Nil
  then show ?case by simp
next
  case (Cons e fm)
  obtain c f where e: "e = (c, f)" by (cases e)
  show ?case
    using Cons.IH Cons.prems
    by (cases "map_of row c") (simp_all add: e distinct_update)
qed

lemma input_fuzzification_lookup:
  assumes "distinct (map fst fs)" "map_of fs var = Some v"
    and "map_of membership_functions var \<noteq> None"
  shows "\<exists>res m. compute_single_dwelling fs = Inr res \<and> fuzzify_value var v = Inr m \<and>
           map_of (input_fuzzification res) var = Some m"
proof -
  from compute_single_dwelling_char[of fs] obtain fz out s where
    c: "fuzzify_inputs fs [] = Inr fz"
       "compute_single_dwelling fs =
         Inr \<lparr>fli_score = s, linguistic_label = get_linguistic_label s,
              output_memberships = out,
              activated_rules = map (activated_entry fz) (filter (\<lambda>r. 0.01 < firing_strength fz r) get_rules),
              input_fuzzification = fz\<rparr>"
    by blast
  from fuzzify_inputs_lookup[OF assms c(1)] obtain m where
    "fuzzify_value var v = Inr m" "map_of fz var = Some m" by blast
  with c(2) show ?thesis by simp
qed

lemma daylight_defined: "map_of membership_functions ''daylight'' \<noteq> None"
  by (simp add: membership_functions_def del: not_None_eq)

lemma extract_features_defined:
  assumes "(col, fv) \<in> set fm" "\<forall>c. (c, fv) \<in> set fm \<longrightarrow> c = col" "map_of row col = Some v"
  shows "map_of (extract_features fm row acc) fv =
           Some (if fv = ''daylight'' \<and> v < 10 then v * 1000 else v)"
  using assms
proof (induction fm arbitrary: acc)
  case Nil
  then show ?case by simp
next
  case (Cons e fm)
  obtain c f where e: "e = (c, f)" by (cases e)
  have only: "\<forall>c. (c, fv) \<in> set fm \<longrightarrow> c = col" using Cons.prems(2) by simp
  show ?case
  proof (cases "fv \<in> snd ` set fm")
    case True
    then obtain c' where "(c', fv) \<in> set fm" by force
    with only have mem: "(col, fv) \<in> set fm" by blast
    show ?thesis
      using Cons.IH[OF mem only Cons.prems(3)]
      by (cases "map_of row c") (simp_all add: e)
  next
    case False
    then have "(c, f) = (col, fv)" using Cons.prems(1) by (force simp: e)
    then show ?thesis
      using False Cons.prems(3) by (simp add: e extract_features_other update_conv')
  qed
qed

lemma compute_batch_rows_char:
  "\<exists>results. compute_batch_rows df fm = Inr results \<and> map dwelling_id results = map fst df \<and>
     (\<forall>idx row res. (idx, row) \<in> set df \<and>
          compute_single_dwelling (extract_features fm row []) = Inr res \<longrightarrow>
        \<lparr>dwelling_id = idx, batch_fli_score = fli_score res,
         batch_linguistic_label = linguistic_label res,
         num_activated_rules = length (activated_rules res)\<rparr> \<in> set results)"
proof (induction df)
  case Nil
  then show ?case by simp
next
  case (Cons p df)
  obtain i rw where p: "p = (i, rw)" by (cases p)
  from compute_single_dwelling_char[of "extract_features fm rw []"] obtain res0 where
    r0: "compute_single_dwelling (extract_features fm rw []) = Inr res0" by blast
  from Cons.IH obtain results where
    ih: "compute_batch_rows df fm = Inr results" "map dwelling_id results = map fst df"
      "\<forall>idx row res. (idx, row) \<in> set df \<and>
          compute_single_dwelling (extract_features fm row []) = Inr res \<longrightarrow>
        \<lparr>dwelling_id = idx, batch_fli_score = fli_score res,
         batch_linguistic_label = linguistic_label res,
         num_activated_rules = length (activated_rules res)\<rparr> \<in> set results"
    by blast
  let ?e = "\<lparr>dwelling_id = i, batch_fli_score = fli_score res0,
         batch_linguistic_label = linguistic_label res0,
         num_activated_rules = length (activated_rules res0)\<rparr>"
  have eq: "compute_batch_rows (p # df) fm = Inr (?e # results)"
    using r0 ih(1) by (simp add: p)
  have ids: "map dwelling_id (?e # results) = map fst (p # df)" using ih(2) by (simp add: p)
  have mem: "\<forall>idx row res. (idx, row) \<in> set (p # df) \<and>
          compute_single_dwelling (extract_features fm row []) = Inr res \<longrightarrow>
        \<lparr>dwelling_id = idx, batch_fli_score = fli_score res,
         batch_linguistic_label = linguistic_label res,
         num_activated_rules = length (activated_rules res)\<rparr> \<in> set (?e # results)"
    using ih(3) r0 by (auto simp: p)
  from eq ids mem show ?case by blast
qed

text \<open>
  Claim C9, as amended. For every row of every data frame scored by the batch
  operation, under the default or any given feature mapping in which one column is
  the only one mapped to the daylight variable, a value of that column strictly
  below 10 is multiplied by 1000 before the daylight variable is fuzzified, and a
  value of 10 or more is fuzzified unchanged. The single-record operation
  fuzzifies the daylight value of any record unchanged.
\<close>

theorem batch_multiplies_small_daylight_values:
  "((idx, row) \<in> set df \<and>
    fm = (case feature_mapping of None \<Rightarrow> default_feature_mapping | Some m \<Rightarrow> m) \<and>
    (col, ''daylight'') \<in> set fm \<and> (\<forall>c. (c, ''daylight'') \<in> set fm \<longrightarrow> c = col) \<and>
    map_of row col = Some v \<longrightarrow>
    (\<exists>results res m.
       compute_batch df feature_mapping = Inr results \<and>
       map dwelling_id results = map fst df \<and>
       compute_single_dwelling (extract_features fm row []) = Inr res \<and>
       \<lparr>dwelling_id = idx, batch_fli_score = fli_score res,
        batch_linguistic_label = linguistic_label res,
        num_activated_rules = length (activated_rules res)\<rparr> \<in> set results \<and>
       map_of (extract_features fm row []) ''daylight'' = Some (if v < 10 then v * 1000 else v) \<and>
       fuzzify_value ''daylight'' (if v < 10 then v * 1000 else v) = Inr m \<and>
       map_of (input_fuzzification res) ''daylight'' = Some m)) \<and>
   (distinct (map fst fs) \<and> map_of fs ''daylight'' = Some x \<longrightarrow>
    (\<exists>res m.
       compute_single_dwelling fs = Inr res \<and>
       fuzzify_value ''daylight'' x = Inr m \<and>
       map_of (input_fuzzification res) ''daylight'' = Some m))"
proof (intro conjI impI)
  assume h: "(idx, row) \<in> set df \<and>
    fm = (case feature_mapping of None \<Rightarrow> default_feature_mapping | Some m \<Rightarrow> m) \<and>
    (col, ''daylight'') \<in> set fm \<and> (\<forall>c. (c, ''daylight'') \<in> set fm \<longrightarrow> c = col) \<and>
    map_of row col = Some v"
  let ?fs = "extract_features fm row []"
  let ?w = "if v < 10 then v * 1000 else v"
  from h have mem: "(col, ''daylight'') \<in> set fm"
    and only: "\<forall>c. (c, ''daylight'') \<in> set fm \<longrightarrow> c = col"
    and val: "map_of row col = Some v" by blast+
  have look: "map_of ?fs ''daylight'' = Some ?w"
    using extract_features_defined[OF mem only val, of "[]"] by simp
  have dist: "distinct (map fst ?fs)" by (rule extract_features_distinct) simp
  from input_fuzzification_lookup[OF dist look daylight_defined] obtain res m where
    r: "compute_single_dwelling ?fs = Inr res" "fuzzify_value ''daylight'' ?w = Inr m"
       "map_of (input_fuzzification res) ''daylight'' = Some m" by blast
  from compute_batch_rows_char[of df fm] obtain results where
    b: "compute_batch_rows df fm = Inr results" "map dwelling_id results = map fst df"
      "\<forall>idx row res. (idx, row) \<in> set df \<and>
          compute_single_dwelling (extract_features fm row []) = Inr res \<longrightarrow>
        \<lparr>dwelling_id = idx, batch_fli_score = fli_score res,
         batch_linguistic_label = linguistic_label res,
         num_activated_rules = length (activated_rules res)\<rparr> \<in> set results"
    by blast
  have batch: "compute_batch df feature_mapping = Inr results"
    using b(1) h by (simp add: compute_batch_def)
  have entry: "\<lparr>dwelling_id = idx, batch_fli_score = fli_score res,
        batch_linguistic_label = linguistic_label res,
        num_activated_rules = length (activated_rules res)\<rparr> \<in> set results"
    using b(3) h r(1) by blast
  from batch b(2) r entry look
  show "\<exists>results res m.
       compute_batch df feature_mapping = Inr results \<and>
       map dwelling_id results = map fst df \<and>
       compute_single_dwelling ?fs = Inr res \<and>
       \<lparr>dwelling_id = idx, batch_fli_score = fli_score res,
        batch_linguistic_label = linguistic_label res,
        num_activated_rules = length (activated_rules res)\<rparr> \<in> set results \<and>
       map_of ?fs ''daylight'' = Some ?w \<and>
       fuzzify_value ''daylight'' ?w = Inr m \<and>
       map_of (input_fuzzification res) ''daylight'' = Some m"
    by blast
next
  assume "distinct (map fst fs) \<and> map_of fs ''daylight'' = Some x"
  then have "distinct (map fst fs)" "map_of fs ''daylight'' = Some x" by blast+
  then show "\<exists>res m.
       compute_single_dwelling fs = Inr res \<and>
       fuzzify_value ''daylight'' x = Inr m \<and>
       map_of (input_fuzzification res) ''daylight'' = Some m"
    by (rule input_fuzzification_lookup[OF _ _ daylight_defined])
qed

theorem batch_multiplies_small_daylight_values_witness:
  "(\<exists>results res m.
      compute_batch [(3, [(''daylight_avg'', 250)]),
                     (7, [(''building_id'', 42), (''daylight_avg'', 0.3)])] None = Inr results \<and>
      map dwelling_id results = [3, 7] \<and>
      compute_single_dwelling [(''daylight'', 300)] = Inr res \<and>
      \<lparr>dwelling_id = 7, batch_fli_score = fli_score res,
       batch_linguistic_label = linguistic_label res,
       num_activated_rules = length (activated_rules res)\<rparr> \<in> set results \<and>
      fuzzify_value ''daylight'' 300 = Inr m \<and>
      map_of (input_fuzzification res) ''daylight'' = Some m) \<and>
   (\<exists>res m.
      compute_single_dwelling [(''noise_lden'', 52), (''daylight'', 5)] = Inr res \<and>
      fuzzify_value ''daylight'' 5 = Inr m \<and>
      map_of (input_fuzzification res) ''daylight'' = Some m)"
proof -
  let ?row = "[(''building_id'', 42), (''daylight_avg'', 0.3::real)]"
  let ?df = "[(3::int, [(''daylight_avg'', 250::real)]), (7, ?row)]"
  let ?fs = "[(''noise_lden'', 52), (''daylight'', 5::real)]"
  have h: "(7, ?row) \<in> set ?df \<and>
      default_feature_mapping =
        (case None of None \<Rightarrow> default_feature_mapping | Some m \<Rightarrow> m) \<and>
      (''daylight_avg'', ''daylight'') \<in> set default_feature_mapping \<and>
      (\<forall>c. (c, ''daylight'') \<in> set default_feature_mapping \<longrightarrow> c = ''daylight_avg'') \<and>
      map_of ?row ''daylight_avg'' = Some 0.3"
    by (auto simp: default_feature_mapping_def)
  have e: "extract_features default_feature_mapping ?row [] = [(''daylight'', 300)]"
    by (simp add: default_feature_mapping_def)
  have g: "distinct (map fst ?fs) \<and> map_of ?fs ''daylight'' = Some 5" by simp
  note t = batch_multiplies_small_daylight_values
    [of 7 ?row ?df default_feature_mapping None "''daylight_avg''" "0.3" ?fs 5]
  from t[THEN conjunct1, rule_format, OF h] obtain results res m where
    "compute_batch ?df None = Inr results"
    "map dwelling_id results = map fst ?df"
    "compute_single_dwelling (extract_features default_feature_mapping ?row []) = Inr res"
    "\<lparr>dwelling_id = 7, batch_fli_score = fli_score res,
      batch_linguistic_label = linguistic_label res,
      num_activated_rules = length (activated_rules res)\<rparr> \<in> set results"
    "fuzzify_value ''daylight'' (if (0.3::real) < 10 then 0.3 * 1000 else 0.3) = Inr m"
    "map_of (input_fuzzification res) ''daylight'' = Some m"
    by blast
  then have first: "\<exists>results res m.
      compute_batch ?df None = Inr results \<and>
      map dwelling_id results = [3, 7] \<and>
      compute_single_dwelling [(''daylight'', 300)] = Inr res \<and>
      \<lparr>dwelling_id = 7, batch_fli_score = fli_score res,
       batch_linguistic_label = linguistic_label res,
       num_activated_rules = length (activated_rules res)\<rparr> \<in> set results \<and>
      fuzzify_value ''daylight'' 300 = Inr m \<and>
      map_of (input_fuzzification res) ''daylight'' = Some m"
    unfolding e by (intro exI[of _ results] exI[of _ res] exI[of _ m]) simp
  from t[THEN conjunct2, rule_format, OF g]
  have second: "\<exists>res m.
      compute_single_dwelling ?fs = Inr res \<and>
      fuzzify_value ''daylight'' 5 = Inr m \<and>
      map_of (input_fuzzification res) ''daylight'' = Some m" .
  from first second show ?thesis by (rule conjI)
qed

subsection \<open>The single-record operation does not convert\<close>

lemma arange_first_two:
  assumes "1 < (stop - start) / step"
  shows "\<exists>rest. arange start stop step = start # (start + step) # rest"
proof -
  define n where "n = nat \<lceil>(stop - start) / step\<rceil>"
  have "1 < \<lceil>(stop - start) / step\<rceil>" using assms by (simp add: less_ceiling_iff)
  then have "2 \<le> n" unfolding n_def by linarith
  then have "n = Suc (Suc (n - 2))" by simp
  then obtain k where k: "n = Suc (Suc k)" ..
  have upt: "[0..<Suc (Suc k)] = 0 # Suc 0 # [Suc (Suc 0)..<Suc (Suc k)]"
    by (simp add: upt_conv_Cons del: upt_Suc)
  have "arange start stop step = map (\<lambda>i. start + real i * step) [0..<n]"
    by (simp add: arange_def n_def)
  then show ?thesis unfolding k upt by simp
qed

lemma last_trapmf: "u \<noteq> [] \<Longrightarrow> last (trapmf u (a, b, c, d)) = trap_degree a b c d (last u)"
  by (simp add: trapmf.simps last_map)

lemma last_trimf: "u \<noteq> [] \<Longrightarrow> last (trimf u (a, b, c)) = trap_degree a b b c (last u)"
  by (simp add: trimf.simps last_map)

lemma last_daylight_universe: "last (arange 0 1000 5) = 995"
  by (simp add: arange_def last_map)

lemma daylight_mfs:
  "map_of membership_functions ''daylight'' =
      Some [(''low'', trapmf (arange 0 1000 5) (0, 0, 50, 120)),
            (''medium'', trimf (arange 0 1000 5) (80, 200, 350)),
            (''high'', trapmf (arange 0 1000 5) (280, 400, 1000, 1000))]"
  by (simp add: membership_functions_def)

lemma daylight_universe: "map_of universes ''daylight'' = Some (arange 0 1000 5)"
  by (simp add: universes_def)

lemma fuzzify_daylight_5000:
  "fuzzify_value ''daylight'' 5000 = Inr [(''low'', 0), (''medium'', 0), (''high'', 1)]"
proof -
  let ?u = "arange 0 1000 5"
  have ne: "?u \<noteq> []" by (rule arange_nonempty) simp_all
  have "fuzzify_value ''daylight'' 5000 =
      Inr [(''low'', last (trapmf ?u (0, 0, 50, 120))),
           (''medium'', last (trimf ?u (80, 200, 350))),
           (''high'', last (trapmf ?u (280, 400, 1000, 1000)))]"
    using fuzzify_value_at_end[OF daylight_mfs daylight_universe, of 5000] last_daylight_universe
    by simp
  then show ?thesis
    unfolding last_trapmf[OF ne] last_trimf[OF ne] last_daylight_universe
    by (simp add: trap_degree_def)
qed

lemma fuzzify_daylight_5:
  "fuzzify_value ''daylight'' 5 = Inr [(''low'', 1), (''medium'', 0), (''high'', 0)]"
proof -
  let ?u = "arange 0 1000 5"
  have "1 < (1000 - 0) / (5::real)" by simp
  from arange_first_two[OF this] obtain rest where "?u = 0 # (0 + 5) # rest" by blast
  then have u: "?u = 0 # 5 # rest" by simp
  from fuzzify_value_known[OF daylight_mfs, of 5] daylight_universe
  have "fuzzify_value ''daylight'' 5 =
      Inr [(''low'', interp_membership ?u (trapmf ?u (0, 0, 50, 120)) 5),
           (''medium'', interp_membership ?u (trimf ?u (80, 200, 350)) 5),
           (''high'', interp_membership ?u (trapmf ?u (280, 400, 1000, 1000)) 5)]"
    by simp
  then show ?thesis
    unfolding u by (simp add: interp_membership_def trapmf.simps trimf.simps trap_degree_def)
qed

theorem single_record_daylight_not_converted_counterexample:
  "map_sum id input_fuzzification (compute_single_dwelling [(''daylight'', 5)]) =
     Inr [(''daylight'', [(''low'', 1), (''medium'', 0), (''high'', 0)])] \<and>
   fuzzify_value ''daylight'' (5 * 1000) = Inr [(''low'', 0), (''medium'', 0), (''high'', 1)]"
proof -
  from compute_single_dwelling_char[of "[(''daylight'', 5)]"] obtain fz out s where
    c: "fuzzify_inputs [(''daylight'', 5)] [] = Inr fz"
       "compute_single_dwelling [(''daylight'', 5)] =
         Inr \<lparr>fli_score = s, linguistic_label = get_linguistic_label s,
              output_memberships = out,
              activated_rules = map (activated_entry fz) (filter (\<lambda>r. 0.01 < firing_strength fz r) get_rules),
              input_fuzzification = fz\<rparr>"
    by blast
  have "fuzzify_inputs [(''daylight'', 5)] [] =
      Inr [(''daylight'', [(''low'', 1), (''medium'', 0), (''high'', 0)])]"
    by (simp only: fuzzify_inputs.simps daylight_defined if_True fuzzify_daylight_5 sum.case) simp
  with c(1) have "fz = [(''daylight'', [(''low'', 1), (''medium'', 0), (''high'', 0)])]" by simp
  with c(2) have "map_sum id input_fuzzification (compute_single_dwelling [(''daylight'', 5)]) =
     Inr [(''daylight'', [(''low'', 1), (''medium'', 0), (''high'', 0)])]" by simp
  moreover have "fuzzify_value ''daylight'' (5 * 1000) = Inr [(''low'', 0), (''medium'', 0), (''high'', 1)]"
    using fuzzify_daylight_5000 by simp
  ultimately show ?thesis by (rule conjI)
qed

end
